theory Spec2Isabelle
  imports Main "HOL-Library.Sublist"
begin

section \<open>Text primitives of the host language\<close>

text \<open>
  A Python \<^verbatim>\<open>str\<close> is a sequence of code points. The model uses \<^typ>\<open>string\<close>, whose
  characters carry the code points 0 to 255 (ASCII and Latin-1); the three character
  classes the program relies on are written out for that range.

  \<^verbatim>\<open>\s\<close> in a \<^verbatim>\<open>str\<close> pattern and \<^verbatim>\<open>str.strip()\<close> both use the Unicode notion of white
  space: below 256 these are the code points 9 to 13, 28 to 32, 133 and 160.
\<close>

definition is_space :: "char \<Rightarrow> bool" where
  "is_space c =
     (let n = (of_char c :: nat)
      in (9 \<le> n \<and> n \<le> 13) \<or> (28 \<le> n \<and> n \<le> 32) \<or> n = 133 \<or> n = 160)"

text \<open>
  \<^verbatim>\<open>str.lower()\<close>: below 256 the cased upper-case code points are A to Z and the
  Latin-1 capitals 192 to 222 without the multiplication sign 215; each maps to the code
  point 32 above it, every other code point is left alone.
\<close>

definition lower_char :: "char \<Rightarrow> char" where
  "lower_char c =
     (let n = (of_char c :: nat)
      in if (65 \<le> n \<and> n \<le> 90) \<or> (192 \<le> n \<and> n \<le> 222 \<and> n \<noteq> 215)
         then char_of (n + 32) else c)"

definition lower :: "string \<Rightarrow> string" where
  "lower s = map lower_char s"

text \<open>\<^verbatim>\<open>str.strip()\<close> removes leading and trailing white space.\<close>

definition strip :: "string \<Rightarrow> string" where
  "strip s = rev (dropWhile is_space (rev (dropWhile is_space s)))"

text \<open>
  \<^verbatim>\<open>str.split('\n')\<close>: the pieces between line feeds; a string without a line feed is
  one piece, and the empty string gives one empty piece.
\<close>

definition newline :: char where
  "newline = CHR 0x0A"

fun split_lines :: "string \<Rightarrow> string list" where
  "split_lines [] = [[]]"
| "split_lines (c # cs) =
     (if c = newline then [] # split_lines cs
      else (case split_lines cs of
              [] \<Rightarrow> [[c]]
            | l # ls \<Rightarrow> (c # l) # ls))"

text \<open>
  \<^verbatim>\<open>str.replace(old, new)\<close> rewrites every non-overlapping occurrence of \<open>old\<close>, leftmost
  first. With an empty \<open>old\<close> Python inserts \<open>new\<close> before every character and at the end.
\<close>

function replace :: "string \<Rightarrow> string \<Rightarrow> string \<Rightarrow> string" where
  "replace s old new =
     (if old = [] then new @ concat (map (\<lambda>c. c # new) s)
      else (case s of
              [] \<Rightarrow> []
            | c # cs \<Rightarrow>
                if prefix old s then new @ replace (drop (length old) s) old new
                else c # replace cs old new))"
  by pat_completeness auto
termination
  by (relation "measure (\<lambda>(s, old, new). length s)") (auto simp: neq_Nil_conv)

declare replace.simps [simp del]

text \<open>
  \<^verbatim>\<open>re.sub(r'\s+', '-', s)\<close>: every maximal run of white space becomes one hyphen.
\<close>

function sub_spaces :: "string \<Rightarrow> string" where
  "sub_spaces [] = []"
| "sub_spaces (c # cs) =
     (if is_space c then CHR ''-'' # sub_spaces (dropWhile is_space cs)
      else c # sub_spaces cs)"
  by pat_completeness auto
termination
  by (relation "measure length") (auto simp: length_dropWhile_le le_imp_less_Suc)

section \<open>The Heading Annotator\<close>

text \<open>
  \<^verbatim>\<open>heading_pattern = re.compile(r'<h([1-6])>(.*?)</h\1>')\<close>

  The closing tag repeats the digit the opening tag captured. The title is matched
  lazily and \<^verbatim>\<open>.\<close> does not match a line feed: the title ends at the first closing tag
  of that level, and there is no match when a line feed or the end of the text comes
  first. A level is the one-character string the group captured, modelled as that
  character.
\<close>

definition is_level :: "char \<Rightarrow> bool" where
  "is_level d = (d \<in> set ''123456'')"

definition closer :: "char \<Rightarrow> string" where
  "closer d = ''</h'' @ [d] @ ''>''"

fun lazy_title :: "char \<Rightarrow> string \<Rightarrow> (string \<times> string) option" where
  "lazy_title d [] = None"
| "lazy_title d (c # cs) =
     (if prefix (closer d) (c # cs) then Some ([], drop 5 (c # cs))
      else if c = newline then None
      else (case lazy_title d cs of
              None \<Rightarrow> None
            | Some (t, r) \<Rightarrow> Some (c # t, r)))"

text \<open>
  One attempt of the pattern at the start of a text: the level, the title and the text
  after the match.
\<close>

fun match_heading :: "string \<Rightarrow> (char \<times> string \<times> string) option" where
  "match_heading (a # b # d # e # rest) =
     (if a = CHR ''<'' \<and> b = CHR ''h'' \<and> is_level d \<and> e = CHR ''>''
      then (case lazy_title d rest of
              None \<Rightarrow> None
            | Some (t, r) \<Rightarrow> Some (d, t, r))
      else None)"
| "match_heading _ = None"

lemma lazy_title_shorter:
  "lazy_title d s = Some (t, r) \<Longrightarrow> length r < length s"
proof (induction s arbitrary: t)
  case Nil
  then show ?case by simp
next
  case (Cons c cs)
  then show ?case
    by (auto split: if_splits option.splits)
qed

lemma match_heading_shorter:
  "match_heading s = Some (d, t, r) \<Longrightarrow> length r < length s"
  by (cases s rule: match_heading.cases)
     (auto split: if_splits option.splits dest: lazy_title_shorter)

text \<open>
  \<^verbatim>\<open>heading_pattern.findall(html_content)\<close>: the matches from left to right, each search
  resuming where the previous match ended; the result lists the two groups of every
  match.
\<close>

function findall :: "string \<Rightarrow> (char \<times> string) list" where
  "findall [] = []"
| "findall (c # cs) =
     (case match_heading (c # cs) of
        Some (d, t, r) \<Rightarrow> (d, t) # findall r
      | None \<Rightarrow> findall cs)"
  by pat_completeness auto
termination
  by (relation "measure length") (auto dest: match_heading_shorter)

declare findall.simps(2) [simp del]

text \<open>
  The two f-strings of the loop body: the bare tag that is looked for and the tag that
  replaces it.
\<close>

definition bare_tag :: "char \<Rightarrow> string \<Rightarrow> string" where
  "bare_tag level title = ''<h'' @ [level] @ ''>'' @ title @ ''</h'' @ [level] @ ''>''"

definition id_tag :: "char \<Rightarrow> string \<Rightarrow> string \<Rightarrow> string" where
  "id_tag level anchor title =
     ''<h'' @ [level] @ '' id=\"'' @ anchor @ ''\">'' @ title @ ''</h'' @ [level] @ ''>''"

definition make_anchor :: "string \<Rightarrow> string" where
  "make_anchor title = sub_spaces (lower title)"

record toc_entry =
  title :: string
  anchor :: string

text \<open>
  The loop of \<^verbatim>\<open>generate_toc\<close> over the matches, threading the list built so far and the
  text rewritten so far.
\<close>

fun toc_loop ::
  "toc_entry list \<Rightarrow> string \<Rightarrow> (char \<times> string) list \<Rightarrow> toc_entry list \<times> string" where
  "toc_loop toc html_content [] = (toc, html_content)"
| "toc_loop toc html_content ((level, t) # matches) =
     (let a = make_anchor t
      in toc_loop (toc @ [\<lparr>title = t, anchor = a\<rparr>])
           (replace html_content (bare_tag level t) (id_tag level a t)) matches)"

definition generate_toc :: "string \<Rightarrow> toc_entry list \<times> string" where
  "generate_toc html_content = toc_loop [] html_content (findall html_content)"

section \<open>The Metadata Extractor\<close>

text \<open>
  \<^verbatim>\<open>metadata_pattern = re.compile(r'^\s*([A-Za-z0-9-_]+):\s*(.+)\s*$')\<close>

  In the character class the hyphen after the range \<^verbatim>\<open>0-9\<close> is a literal: a key
  character is an ASCII letter, a digit, a hyphen or an underscore.
\<close>

definition is_key_char :: "char \<Rightarrow> bool" where
  "is_key_char c =
     (let n = (of_char c :: nat)
      in (65 \<le> n \<and> n \<le> 90) \<or> (97 \<le> n \<and> n \<le> 122) \<or> (48 \<le> n \<and> n \<le> 57)
         \<or> c = CHR ''-'' \<or> c = CHR ''_'')"

text \<open>
  \<^verbatim>\<open>metadata_pattern.match(line)\<close> on a line without a line feed (the lines come from
  \<^verbatim>\<open>split('\n')\<close>), returning the two groups. Each greedy part takes what it can: the
  leading white space, then the key characters, which must be followed by a colon (no
  key character is white space or a colon, so giving characters back never helps).
  After the colon \<^verbatim>\<open>\s*\<close> takes all white space; \<^verbatim>\<open>(.+)\<close> takes the rest of the line
  and leaves nothing to the final \<^verbatim>\<open>\s*\<close>. When only white space follows the colon,
  \<^verbatim>\<open>\s*\<close> gives its last character back to \<^verbatim>\<open>(.+)\<close>; when nothing follows the colon the
  line does not match.
\<close>

definition match_metadata :: "string \<Rightarrow> (string \<times> string) option" where
  "match_metadata line =
     (let r1 = dropWhile is_space line;
          key = takeWhile is_key_char r1;
          r2 = dropWhile is_key_char r1
      in if key = [] then None
         else (case r2 of
                 [] \<Rightarrow> None
               | c # r3 \<Rightarrow>
                   if c \<noteq> CHR '':'' then None
                   else (let v = dropWhile is_space r3
                         in if v \<noteq> [] then Some (key, v)
                            else if r3 \<noteq> [] then Some (key, [last r3])
                            else None)))"

text \<open>
  The dictionary \<^verbatim>\<open>metadata\<close> is a map; an assignment to a key that is present
  overwrites its value.
\<close>

type_synonym metadata = "string \<rightharpoonup> string"

fun metadata_loop :: "metadata \<Rightarrow> string list \<Rightarrow> metadata" where
  "metadata_loop m [] = m"
| "metadata_loop m (line # lines) =
     (case match_metadata line of
        Some (key, v) \<Rightarrow> metadata_loop (m(strip key \<mapsto> strip v)) lines
      | None \<Rightarrow> metadata_loop m lines)"

definition extract_metadata :: "string \<Rightarrow> metadata" where
  "extract_metadata markdown_content = metadata_loop Map.empty (split_lines markdown_content)"

section \<open>Files, libraries and the command line\<close>

text \<open>
  An exception that leaves a function is the left summand of its result. Three classes
  are told apart, because the program or the interpreter tells them apart:
  \<^verbatim>\<open>FileNotFoundError\<close>, the only one \<^verbatim>\<open>read_file\<close> catches, and \<^verbatim>\<open>TypeError\<close> and
  \<^verbatim>\<open>AttributeError\<close>, which the interpreter raises itself. Any other exception is
  \<open>OtherError\<close> with the name of its class.
\<close>

datatype py_error = FileNotFoundError | TypeError | AttributeError | OtherError string

text \<open>
  The values \<^verbatim>\<open>json.load\<close> can return, and with them every value the variables
  \<^verbatim>\<open>config\<close>, \<^verbatim>\<open>css_file\<close> and \<^verbatim>\<open>template_file\<close> can hold. Of a float the program only
  tests whether it is zero; \<open>PyFloat\<close> carries the answer. A dict is the list of its
  items, no two of them with the same key; the keys of a JSON object are strings.
\<close>

datatype py_value =
    PyNone
  | PyBool bool
  | PyInt int
  | PyFloat bool
  | PyStr string
  | PyList "py_value list"
  | PyDict "(string \<times> py_value) list"

text \<open>The truth value of a value, as \<^verbatim>\<open>or\<close> and \<^verbatim>\<open>if\<close> take it.\<close>

fun truthy :: "py_value \<Rightarrow> bool" where
  "truthy PyNone = False"
| "truthy (PyBool b) = b"
| "truthy (PyInt n) = (n \<noteq> 0)"
| "truthy (PyFloat nonzero) = nonzero"
| "truthy (PyStr s) = (s \<noteq> [])"
| "truthy (PyList xs) = (xs \<noteq> [])"
| "truthy (PyDict items) = (items \<noteq> [])"

text \<open>
  \<^verbatim>\<open>config.get(key, fallback)\<close>: only a dict has the method; on every other value the
  attribute lookup raises \<^verbatim>\<open>AttributeError\<close>.
\<close>

fun dict_get :: "py_value \<Rightarrow> string \<Rightarrow> py_value \<Rightarrow> py_error + py_value" where
  "dict_get (PyDict items) key fallback =
     Inr (case map_of items key of None \<Rightarrow> fallback | Some v \<Rightarrow> v)"
| "dict_get _ key fallback = Inl AttributeError"

text \<open>
  What \<^verbatim>\<open>open\<close> accepts as its first argument: a string is a path, an integer (a bool
  is one) is a file descriptor, and every other value of the kinds above makes \<^verbatim>\<open>open\<close>
  raise \<^verbatim>\<open>TypeError\<close>.
\<close>

datatype file_ref = Path string | Descriptor int

fun file_ref_of :: "py_value \<Rightarrow> file_ref option" where
  "file_ref_of (PyStr p) = Some (Path p)"
| "file_ref_of (PyInt n) = Some (Descriptor n)"
| "file_ref_of (PyBool b) = Some (Descriptor (if b then 1 else 0))"
| "file_ref_of _ = None"

text \<open>
  The file system is what the operating system answers, and the model assumes nothing
  about it. \<open>path_exists p\<close> is \<^verbatim>\<open>os.path.exists(p)\<close>. \<open>read_text r\<close> is the outcome of
  \<^verbatim>\<open>open(r, 'r', encoding='utf-8')\<close> followed by \<^verbatim>\<open>read()\<close>: the text, or the exception
  (\<^verbatim>\<open>FileNotFoundError\<close> for a missing file; \<^verbatim>\<open>NotADirectoryError\<close>, \<^verbatim>\<open>IsADirectoryError\<close>,
  \<^verbatim>\<open>PermissionError\<close>, \<^verbatim>\<open>UnicodeDecodeError\<close>, \<^verbatim>\<open>ValueError\<close> and the like as
  \<open>OtherError\<close>). \<open>write_text p s\<close> is the exception that
  \<^verbatim>\<open>open(p, 'w', encoding='utf-8')\<close> followed by \<^verbatim>\<open>write(s)\<close> raises, if any: for instance
  \<^verbatim>\<open>FileNotFoundError\<close> when the directory of \<open>p\<close> is missing.
\<close>

record filesystem =
  path_exists :: "string \<Rightarrow> bool"
  read_text :: "file_ref \<Rightarrow> py_error + string"
  write_text :: "string \<Rightarrow> string \<Rightarrow> py_error option"

text \<open>
  \<^verbatim>\<open>read_file\<close> catches \<^verbatim>\<open>FileNotFoundError\<close> only and returns \<^verbatim>\<open>None\<close> for it; every other
  exception leaves it.
\<close>

definition read_file :: "filesystem \<Rightarrow> py_value \<Rightarrow> py_error + string option" where
  "read_file fs file_path =
     (case file_ref_of file_path of
        None \<Rightarrow> Inl TypeError
      | Some r \<Rightarrow>
          (case read_text fs r of
             Inl e \<Rightarrow> if e = FileNotFoundError then Inr None else Inl e
           | Inr content \<Rightarrow> Inr (Some content)))"

text \<open>
  What a run does to the world is the list of its calls of \<^verbatim>\<open>write_file\<close>, each with the
  path and the text; the program reads nothing after it has written. A run ends with
  the exception that left it, or with none. \<^verbatim>\<open>write_file\<close> catches nothing. A call is
  listed whether or not it raised: what a failed attempt leaves at the path is the
  operating system's matter.
\<close>

record run =
  raised :: "py_error option"
  writes :: "(string \<times> string) list"

abbreviation raising :: "py_error \<Rightarrow> run" where
  "raising e \<equiv> \<lparr>raised = Some e, writes = []\<rparr>"

abbreviation returning :: run where
  "returning \<equiv> \<lparr>raised = None, writes = []\<rparr>"

definition write_file :: "filesystem \<Rightarrow> string \<Rightarrow> string \<Rightarrow> run" where
  "write_file fs file_path content =
     \<lparr>raised = write_text fs file_path content, writes = [(file_path, content)]\<rparr>"

text \<open>
  The keyword arguments that reach \<^verbatim>\<open>template.render\<close>: the three named ones and the
  entries of the metadata dictionary.
\<close>

record render_kwargs =
  kw_html_content :: string
  kw_css_content :: "string option"
  kw_toc :: "toc_entry list"
  kw_metadata :: metadata

text \<open>
  The imported packages are parameters of the model: \<^verbatim>\<open>json.load\<close> on the text of the
  configuration file, \<^verbatim>\<open>markdown.markdown\<close> with its list of extensions, the constructor
  \<^verbatim>\<open>jinja2.Template\<close> (which may be handed \<^verbatim>\<open>None\<close>) and the method \<^verbatim>\<open>render\<close> of the
  template it builds. Each one may raise. A value of this record is the behaviour of
  the packages during one run; whether they behave alike in two runs is not assumed.
\<close>

record 't libraries =
  json_load :: "string \<Rightarrow> py_error + py_value"
  markdown :: "string \<Rightarrow> string list \<Rightarrow> py_error + string"
  Template :: "string option \<Rightarrow> py_error + 't"
  render :: "'t \<Rightarrow> render_kwargs \<Rightarrow> py_error + string"

definition convert_markdown_to_html :: "'t libraries \<Rightarrow> string \<Rightarrow> py_error + string" where
  "convert_markdown_to_html libs markdown_content = markdown libs markdown_content [''toc'']"

text \<open>
  \<^verbatim>\<open>template.render(html_content=..., css_content=..., toc=..., **metadata)\<close>: a key of
  \<^verbatim>\<open>metadata\<close> that repeats one of the three named keywords makes the call itself raise
  \<^verbatim>\<open>TypeError\<close> (multiple values for a keyword argument), after the template was read
  and built and before \<^verbatim>\<open>render\<close> runs.
\<close>

definition apply_template ::
  "'t libraries \<Rightarrow> filesystem \<Rightarrow> string \<Rightarrow> metadata \<Rightarrow> toc_entry list \<Rightarrow> py_value
     \<Rightarrow> string option \<Rightarrow> py_error + string" where
  "apply_template libs fs html_content metadata toc template_path css_content =
     (case read_file fs template_path of
        Inl e \<Rightarrow> Inl e
      | Inr template_str \<Rightarrow>
          (case Template libs template_str of
             Inl e \<Rightarrow> Inl e
           | Inr template \<Rightarrow>
               if metadata ''html_content'' \<noteq> None \<or> metadata ''css_content'' \<noteq> None
                  \<or> metadata ''toc'' \<noteq> None
               then Inl TypeError
               else render libs template
                      \<lparr>kw_html_content = html_content, kw_css_content = css_content,
                       kw_toc = toc, kw_metadata = metadata\<rparr>))"

text \<open>
  The command line: the two positional arguments and the three options, each option
  given or not. \<^verbatim>\<open>parse_args\<close> fills in the defaults declared with \<^verbatim>\<open>add_argument\<close>.
\<close>

record command_line =
  arg_input :: string
  arg_output :: string
  opt_css :: "string option"
  opt_template :: "string option"
  opt_config :: "string option"

text \<open>The namespace \<^verbatim>\<open>args\<close>; the field \<open>args_x\<close> is \<^verbatim>\<open>args.x\<close>.\<close>

record args =
  args_input :: string
  args_output :: string
  args_css :: "string option"
  args_template :: string
  args_config :: string

definition default_template :: string where
  "default_template = ''templates/default_template.html''"

definition parse_args :: "command_line \<Rightarrow> args" where
  "parse_args argv =
     \<lparr>args_input = arg_input argv, args_output = arg_output argv,
      args_css = opt_css argv,
      args_template = (case opt_template argv of None \<Rightarrow> default_template | Some t \<Rightarrow> t),
      args_config = (case opt_config argv of None \<Rightarrow> ''config.json'' | Some c \<Rightarrow> c)\<rparr>"

text \<open>
  Lines 68 to 72 of \<^verbatim>\<open>main\<close>: the configuration is the empty dict unless the
  configuration path exists, in which case the file is opened, with nothing caught, and
  parsed. The result is whatever value the file holds, a dict or not.
\<close>

definition load_config :: "'t libraries \<Rightarrow> filesystem \<Rightarrow> string \<Rightarrow> py_error + py_value" where
  "load_config libs fs path =
     (if path_exists fs path
      then (case read_text fs (Path path) of
              Inl e \<Rightarrow> Inl e
            | Inr content \<Rightarrow> json_load libs content)
      else Inr (PyDict []))"

text \<open>
  Line 76, \<^verbatim>\<open>css_file = args.css or config.get('css')\<close>, and line 77,
  \<^verbatim>\<open>template_file = args.template or config.get('template', 'templates/default_template.html')\<close>.
  \<^verbatim>\<open>a or b\<close> is \<open>a\<close> when \<open>a\<close> is truthy, and only otherwise is \<open>b\<close> evaluated and taken;
  \<^verbatim>\<open>None\<close> and the empty string are falsy. So \<^verbatim>\<open>config.get\<close> is called, and can raise,
  only when the option is falsy.
\<close>

definition css_file_of :: "args \<Rightarrow> py_value \<Rightarrow> py_error + py_value" where
  "css_file_of a config =
     (case args_css a of
        Some p \<Rightarrow> if p \<noteq> [] then Inr (PyStr p) else dict_get config ''css'' PyNone
      | None \<Rightarrow> dict_get config ''css'' PyNone)"

definition template_file_of :: "args \<Rightarrow> py_value \<Rightarrow> py_error + py_value" where
  "template_file_of a config =
     (if args_template a \<noteq> [] then Inr (PyStr (args_template a))
      else dict_get config ''template'' (PyStr default_template))"

text \<open>
  \<^verbatim>\<open>main\<close>. The two early \<^verbatim>\<open>return\<close>s and the exceptions end the run before
  \<^verbatim>\<open>write_file\<close> is reached. Log lines are not part of the model.
\<close>

definition main :: "'t libraries \<Rightarrow> filesystem \<Rightarrow> command_line \<Rightarrow> run" where
  "main libs fs argv =
     (let a = parse_args argv
      in case load_config libs fs (args_config a) of
           Inl e \<Rightarrow> raising e
         | Inr config \<Rightarrow>
             (let input_file = args_input a;
                  output_file = args_output a
              in case css_file_of a config of
                   Inl e \<Rightarrow> raising e
                 | Inr css_file \<Rightarrow>
             (case template_file_of a config of
                   Inl e \<Rightarrow> raising e
                 | Inr template_file \<Rightarrow>
             (case read_file fs (PyStr input_file) of
                   Inl e \<Rightarrow> raising e
                 | Inr None \<Rightarrow> returning
                 | Inr (Some markdown_content) \<Rightarrow>
                     (let metadata = extract_metadata markdown_content
                      in case convert_markdown_to_html libs markdown_content of
                           Inl e \<Rightarrow> raising e
                         | Inr rendered \<Rightarrow>
                             (let (toc, html_content) = generate_toc rendered;
                                  finish = (\<lambda>css_content.
                                    case apply_template libs fs html_content metadata toc
                                           template_file css_content of
                                      Inl e \<Rightarrow> raising e
                                    | Inr final_html \<Rightarrow> write_file fs output_file final_html)
                              in if truthy css_file
                                 then (case read_file fs css_file of
                                         Inl e \<Rightarrow> raising e
                                       | Inr None \<Rightarrow> returning
                                       | Inr (Some css_content) \<Rightarrow> finish (Some css_content))
                                 else finish None))))))"

text \<open>
  Stand-ins for the imported packages, used where a statement is evaluated on a concrete
  run: a JSON reader that knows three texts, a Markdown renderer that returns its input,
  a template constructor that rejects \<^verbatim>\<open>None\<close>, and a renderer that appends the body to
  the template text. \<open>random_libs c\<close> is the same with a renderer that knows the template
  \<^verbatim>\<open>{{ "ab"|random }}\<close>, for which the run's random generator picks the character \<open>c\<close>.
\<close>

definition demo_libs :: "string libraries" where
  "demo_libs =
     \<lparr>json_load = (\<lambda>content.
        if content = ''{\"template\": \"custom.html\"}''
        then Inr (PyDict [(''template'', PyStr ''custom.html'')])
        else if content = ''{}'' then Inr (PyDict [])
        else if content = ''[]'' then Inr (PyList [])
        else Inl (OtherError ''JSONDecodeError'')),
      markdown = (\<lambda>content extensions. Inr content),
      Template = (\<lambda>source. case source of None \<Rightarrow> Inl TypeError | Some t \<Rightarrow> Inr t),
      render = (\<lambda>t kw. Inr (t @ kw_html_content kw))\<rparr>"

definition random_libs :: "char \<Rightarrow> string libraries" where
  "random_libs c =
     demo_libs\<lparr>render := (\<lambda>t kw.
        if t = ''{{ \"ab\"|random }}'' then Inr [c] else Inr (t @ kw_html_content kw))\<rparr>"

text \<open>
  A file system for the examples: one directory that holds the given text files, all of
  them readable, in which every path can be written and no descriptor can be read.
\<close>

definition disk :: "(string \<rightharpoonup> string) \<Rightarrow> filesystem" where
  "disk files =
     \<lparr>path_exists = (\<lambda>p. files p \<noteq> None),
      read_text = (\<lambda>r. case r of
         Path p \<Rightarrow> (case files p of None \<Rightarrow> Inl FileNotFoundError | Some s \<Rightarrow> Inr s)
       | Descriptor n \<Rightarrow> Inl (OtherError ''OSError'')),
      write_text = (\<lambda>p s. None)\<rparr>"

text \<open>
  What a run reads: the configuration path and the input path, and, once the
  configuration is loaded, the CSS file if one is requested and the template.
\<close>

definition refs_of :: "py_value \<Rightarrow> file_ref list" where
  "refs_of v = (case file_ref_of v of None \<Rightarrow> [] | Some r \<Rightarrow> [r])"

definition refs_read :: "'t libraries \<Rightarrow> filesystem \<Rightarrow> command_line \<Rightarrow> file_ref list" where
  "refs_read libs fs argv =
     (let a = parse_args argv
      in Path (args_config a) # Path (args_input a) #
         (case load_config libs fs (args_config a) of
            Inl e \<Rightarrow> []
          | Inr config \<Rightarrow>
              (case css_file_of a config of
                 Inl e \<Rightarrow> []
               | Inr css_file \<Rightarrow>
                   if truthy css_file then refs_of css_file else [])
              @ (case template_file_of a config of
                   Inl e \<Rightarrow> []
                 | Inr template_file \<Rightarrow> refs_of template_file)))"

text \<open>
  The part of \<^verbatim>\<open>main\<close> before the call of \<^verbatim>\<open>write_file\<close>, as a function of its own: the
  exception, \<^verbatim>\<open>None\<close> for an early \<^verbatim>\<open>return\<close>, or the final page. It only serves the
  proofs; \<open>main_produce\<close> below relates it to \<^verbatim>\<open>main\<close>.
\<close>

definition produce :: "'t libraries \<Rightarrow> filesystem \<Rightarrow> command_line \<Rightarrow> py_error + string option" where
  "produce libs fs argv =
     (let a = parse_args argv
      in case load_config libs fs (args_config a) of
           Inl e \<Rightarrow> Inl e
         | Inr config \<Rightarrow>
         (case css_file_of a config of
           Inl e \<Rightarrow> Inl e
         | Inr css_file \<Rightarrow>
         (case template_file_of a config of
           Inl e \<Rightarrow> Inl e
         | Inr template_file \<Rightarrow>
         (case read_file fs (PyStr (args_input a)) of
           Inl e \<Rightarrow> Inl e
         | Inr None \<Rightarrow> Inr None
         | Inr (Some markdown_content) \<Rightarrow>
         (case convert_markdown_to_html libs markdown_content of
           Inl e \<Rightarrow> Inl e
         | Inr rendered \<Rightarrow>
             if truthy css_file
             then (case read_file fs css_file of
                     Inl e \<Rightarrow> Inl e
                   | Inr None \<Rightarrow> Inr None
                   | Inr (Some css_content) \<Rightarrow>
                       map_sum id Some
                         (apply_template libs fs (snd (generate_toc rendered))
                            (extract_metadata markdown_content)
                            (fst (generate_toc rendered)) template_file (Some css_content)))
             else map_sum id Some
                    (apply_template libs fs (snd (generate_toc rendered))
                       (extract_metadata markdown_content)
                       (fst (generate_toc rendered)) template_file None))))))"

section \<open>Documents made of text and bare headings\<close>

text \<open>
  The notions below describe the texts on which the Heading Annotator is studied; they
  are not part of the program. \<open>opener_at s\<close>: the text \<open>s\<close> starts with a bare opening
  heading tag, the only place where \<^verbatim>\<open>heading_pattern\<close> can start to match.
  \<open>has_opener s\<close>: such a tag occurs somewhere in \<open>s\<close>. \<open>free_of_openers u s\<close>: in the
  text \<open>u @ s\<close> no such tag starts at a position inside \<open>u\<close>.
\<close>

fun opener_at :: "string \<Rightarrow> bool" where
  "opener_at (a # b # d # e # rest) =
     (a = CHR ''<'' \<and> b = CHR ''h'' \<and> is_level d \<and> e = CHR ''>'')"
| "opener_at _ = False"

fun has_opener :: "string \<Rightarrow> bool" where
  "has_opener [] = False"
| "has_opener (c # cs) = (opener_at (c # cs) \<or> has_opener cs)"

fun free_of_openers :: "string \<Rightarrow> string \<Rightarrow> bool" where
  "free_of_openers [] s = True"
| "free_of_openers (c # cs) s = (\<not> opener_at (c # cs @ s) \<and> free_of_openers cs s)"

text \<open>
  A title of level \<open>d\<close> is clean when it holds no line feed, no closing tag of its own
  level, and no bare opening heading tag, neither as it stands nor in its anchor (where
  lowercasing can produce one). Inline markup such as \<open><em>\<close> is allowed.
\<close>

definition clean_title :: "char \<Rightarrow> string \<Rightarrow> bool" where
  "clean_title d t =
     (newline \<notin> set t \<and> \<not> sublist (closer d) t \<and> \<not> has_opener t
      \<and> \<not> has_opener (make_anchor t))"

text \<open>
  A document is the text before the first heading and a list of headings, each with its
  level, its title and the text that follows it up to the next heading. The text between
  headings may hold anything but a bare opening heading tag, in particular heading tags
  that carry attributes.
\<close>

type_synonym heading = "char \<times> string \<times> string"

definition wf_heading :: "heading \<Rightarrow> bool" where
  "wf_heading = (\<lambda>(d, t, p). is_level d \<and> clean_title d t \<and> \<not> has_opener p)"

definition wf_doc :: "string \<Rightarrow> heading list \<Rightarrow> bool" where
  "wf_doc p0 hs = (\<not> has_opener p0 \<and> list_all wf_heading hs)"

text \<open>
  The text of a document with the headings selected by \<open>sel\<close> carrying their anchor as id
  and the others bare; with none selected this is the input text, with all selected the
  fully annotated text. \<open>toc_of\<close> lists title and anchor of every heading in order.
\<close>

definition rewritten_doc :: "(char \<times> string \<Rightarrow> bool) \<Rightarrow> string \<Rightarrow> heading list \<Rightarrow> string" where
  "rewritten_doc sel p0 hs =
     p0 @ concat (map (\<lambda>(d, t, p).
            (if sel (d, t) then id_tag d (make_anchor t) t else bare_tag d t) @ p) hs)"

definition render_doc :: "string \<Rightarrow> heading list \<Rightarrow> string" where
  "render_doc p0 hs = p0 @ concat (map (\<lambda>(d, t, p). bare_tag d t @ p) hs)"

definition annotated_doc :: "string \<Rightarrow> heading list \<Rightarrow> string" where
  "annotated_doc p0 hs = p0 @ concat (map (\<lambda>(d, t, p). id_tag d (make_anchor t) t @ p) hs)"

definition toc_of :: "heading list \<Rightarrow> toc_entry list" where
  "toc_of hs = map (\<lambda>(d, t, p). \<lparr>title = t, anchor = make_anchor t\<rparr>) hs"

text \<open>
  Bookkeeping for the proofs: a document in which each heading is flagged as already
  rewritten or not, and the effect on the flags of one pass of the loop (\<open>mark\<close>) and of
  a list of passes (\<open>marks\<close>).
\<close>

definition element :: "bool \<times> heading \<Rightarrow> string" where
  "element = (\<lambda>(f, d, t, p). (if f then id_tag d (make_anchor t) t else bare_tag d t) @ p)"

definition render_marked :: "(bool \<times> heading) list \<Rightarrow> string" where
  "render_marked hs = concat (map element hs)"

definition mark :: "char \<Rightarrow> string \<Rightarrow> bool \<times> heading \<Rightarrow> bool \<times> heading" where
  "mark d t = (\<lambda>(f, d', t', p). (f \<or> (d' = d \<and> t' = t), d', t', p))"

definition marks :: "(char \<times> string) list \<Rightarrow> bool \<times> heading \<Rightarrow> bool \<times> heading" where
  "marks ms = (\<lambda>(f, d, t, p). (f \<or> (d, t) \<in> set ms, d, t, p))"


fun occurrences :: "string \<Rightarrow> string \<Rightarrow> nat" where
  "occurrences pat [] = 0"
| "occurrences pat (c # cs) = (if prefix pat (c # cs) then 1 else 0) + occurrences pat cs"

section \<open>Properties of the Metadata Extractor\<close>

lemma metadata_loop_snoc:
  "metadata_loop m (ls @ [l]) =
     (case match_metadata l of
        None \<Rightarrow> metadata_loop m ls
      | Some (key, v) \<Rightarrow> (metadata_loop m ls)(strip key \<mapsto> strip v))"
  by (induction ls arbitrary: m) (auto split: option.splits)

lemma metadata_loop_no_match:
  "\<forall>l \<in> set ls. match_metadata l = None \<Longrightarrow> metadata_loop m ls = m"
  by (induction ls arbitrary: m) auto

lemma split_lines_not_Nil: "split_lines s \<noteq> []"
  by (induction s) (auto split: list.splits)

lemma split_lines_append:
  "split_lines (s @ newline # l) = split_lines s @ split_lines l"
proof (induction s)
  case Nil
  show ?case by simp
next
  case (Cons c cs)
  obtain x xs where "split_lines cs = x # xs"
    using split_lines_not_Nil [of cs] by (cases "split_lines cs") auto
  with Cons show ?case
    by simp
qed

lemma split_lines_one: "newline \<notin> set l \<Longrightarrow> split_lines l = [l]"
  by (induction l) auto

lemma dropWhile_all: "list_all P xs \<Longrightarrow> dropWhile P (xs @ ys) = dropWhile P ys"
  by (induction xs) auto

lemma dropWhile_hd: "xs \<noteq> [] \<Longrightarrow> \<not> P (hd xs) \<Longrightarrow> dropWhile P xs = xs"
  by (cases xs) auto

lemma strip_middle:
  assumes "list_all is_space a" and "list_all is_space b"
    and "m \<noteq> []" and "\<not> is_space (hd m)" and "\<not> is_space (last m)"
  shows "strip (a @ m @ b) = m"
proof -
  have "dropWhile is_space (a @ m @ b) = m @ b"
    using assms(1,3,4) by (simp add: dropWhile_all dropWhile_hd)
  moreover have "dropWhile is_space (rev b @ rev m) = rev m"
    using assms(2,3,5) by (simp add: dropWhile_all dropWhile_hd hd_rev)
  ultimately show ?thesis
    by (simp add: strip_def)
qed

lemma strip_blank:
  assumes "list_all is_space a"
  shows "strip a = []"
proof -
  from assms have d: "dropWhile is_space a = []"
    by (induction a) auto
  show ?thesis
    unfolding strip_def d by simp
qed

lemma key_char_not_space: "is_key_char c \<Longrightarrow> \<not> is_space c"
  by (auto simp: is_key_char_def is_space_def Let_def)

lemma strip_key:
  assumes "match_metadata l = Some (key, v)"
  shows "strip key = key"
proof -
  from assms have k: "key \<noteq> []" "key = takeWhile is_key_char (dropWhile is_space l)"
    by (auto simp: match_metadata_def Let_def split: if_splits list.splits)
  then have "\<forall>c \<in> set key. is_key_char c"
    by (metis set_takeWhileD)
  with k(1) have "\<not> is_space (hd key)" "\<not> is_space (last key)"
    by (auto dest: key_char_not_space)
  with k(1) strip_middle [of "[]" "[]" key] show ?thesis
    by simp
qed

lemma extract_metadata_last_line:
  assumes "newline \<notin> set l"
  shows "extract_metadata (s @ newline # l) =
     (case match_metadata l of
        None \<Rightarrow> extract_metadata s
      | Some (key, v) \<Rightarrow> (extract_metadata s)(key \<mapsto> strip v))"
proof (cases "match_metadata l")
  case None
  with assms show ?thesis
    by (simp add: extract_metadata_def split_lines_append split_lines_one metadata_loop_snoc)
next
  case (Some kv)
  obtain key v where kv: "kv = (key, v)"
    by (cases kv)
  with Some have "strip key = key"
    by (simp add: strip_key)
  with assms Some kv show ?thesis
    by (simp add: extract_metadata_def split_lines_append split_lines_one metadata_loop_snoc)
qed

text \<open>
  C4. On the four lines of the example the extractor returns exactly the mapping of
  \<open>Title\<close> to \<open>Final\<close> and \<open>Author\<close> to \<open>J. Doe\<close>: the line \<open>Another Title: Ignored\<close> does
  not match and the second \<open>Title\<close> line overwrites the first. On lines with white space
  around key and value, a carriage return before the line feed included, key and value
  are recorded without it. In general, a last line that does not match is ignored, and
  a last line that matches sets its key to the trimmed value, whatever the key held
  before; trimming removes exactly the white space before the first and after the last
  character that is not white space, and leaves nothing of a text that is all white
  space.
\<close>

theorem extract_metadata_example:
  "extract_metadata
     ''Title: My Page\<newline>Author: J. Doe\<newline>Another Title: Ignored\<newline>Title: Final''
     = [''Title'' \<mapsto> ''Final'', ''Author'' \<mapsto> ''J. Doe'']
   \<and> extract_metadata
       (''  Title:   Final Cut  '' @ [CHR 0x0D] @ ''\<newline>no colon here\<newline>x-y_9:v'' @ [CHR 0x09])
     = [''Title'' \<mapsto> ''Final Cut'', ''x-y_9'' \<mapsto> ''v'']
   \<and> (newline \<notin> set l \<longrightarrow>
        extract_metadata (s @ newline # l) =
          (case match_metadata l of
             None \<Rightarrow> extract_metadata s
           | Some (key, v) \<Rightarrow> (extract_metadata s)(key \<mapsto> strip v)))
   \<and> (list_all is_space a \<and> list_all is_space b
        \<and> m \<noteq> [] \<and> \<not> is_space (hd m) \<and> \<not> is_space (last m)
      \<longrightarrow> strip (a @ m @ b) = m)
   \<and> (list_all is_space a \<longrightarrow> strip a = [])"
proof (intro conjI impI)
  have l: "split_lines
      ''Title: My Page\<newline>Author: J. Doe\<newline>Another Title: Ignored\<newline>Title: Final''
     = [''Title: My Page'', ''Author: J. Doe'', ''Another Title: Ignored'', ''Title: Final'']"
    by code_simp
  have m1: "match_metadata ''Title: My Page'' = Some (''Title'', ''My Page'')"
    by code_simp
  have m2: "match_metadata ''Author: J. Doe'' = Some (''Author'', ''J. Doe'')"
    by code_simp
  have m3: "match_metadata ''Another Title: Ignored'' = None"
    by code_simp
  have m4: "match_metadata ''Title: Final'' = Some (''Title'', ''Final'')"
    by code_simp
  have s: "strip ''Title'' = ''Title''" "strip ''My Page'' = ''My Page''"
    "strip ''Author'' = ''Author''" "strip ''J. Doe'' = ''J. Doe''"
    "strip ''Final'' = ''Final''"
    by code_simp+
  show "extract_metadata
     ''Title: My Page\<newline>Author: J. Doe\<newline>Another Title: Ignored\<newline>Title: Final''
     = [''Title'' \<mapsto> ''Final'', ''Author'' \<mapsto> ''J. Doe'']"
    unfolding extract_metadata_def l
    by (rule ext) (simp add: m1 m2 m3 m4 s)
next
  have l: "split_lines
      (''  Title:   Final Cut  '' @ [CHR 0x0D] @ ''\<newline>no colon here\<newline>x-y_9:v'' @ [CHR 0x09])
     = [''  Title:   Final Cut  '' @ [CHR 0x0D], ''no colon here'', ''x-y_9:v'' @ [CHR 0x09]]"
    by code_simp
  have m1: "match_metadata (''  Title:   Final Cut  '' @ [CHR 0x0D])
      = Some (''Title'', ''Final Cut  '' @ [CHR 0x0D])"
    by code_simp
  have m2: "match_metadata ''no colon here'' = None"
    by code_simp
  have m3: "match_metadata (''x-y_9:v'' @ [CHR 0x09]) = Some (''x-y_9'', ''v'' @ [CHR 0x09])"
    by code_simp
  have s: "strip ''Title'' = ''Title''" "strip (''Final Cut  '' @ [CHR 0x0D]) = ''Final Cut''"
    "strip ''x-y_9'' = ''x-y_9''" "strip (''v'' @ [CHR 0x09]) = ''v''"
    by code_simp+
  show "extract_metadata
       (''  Title:   Final Cut  '' @ [CHR 0x0D] @ ''\<newline>no colon here\<newline>x-y_9:v'' @ [CHR 0x09])
     = [''Title'' \<mapsto> ''Final Cut'', ''x-y_9'' \<mapsto> ''v'']"
    unfolding extract_metadata_def l
    by (rule ext) (simp add: m1 [simplified] m2 m3 [simplified] s [simplified])
next
  assume "newline \<notin> set l"
  then show "extract_metadata (s @ newline # l) =
          (case match_metadata l of
             None \<Rightarrow> extract_metadata s
           | Some (key, v) \<Rightarrow> (extract_metadata s)(key \<mapsto> strip v))"
    by (rule extract_metadata_last_line)
next
  assume "list_all is_space a \<and> list_all is_space b
        \<and> m \<noteq> [] \<and> \<not> is_space (hd m) \<and> \<not> is_space (last m)"
  then show "strip (a @ m @ b) = m"
    by (simp add: strip_middle)
next
  assume "list_all is_space a"
  then show "strip a = []"
    by (rule strip_blank)
qed

theorem extract_metadata_example_witness:
  "extract_metadata (''Title: Old'' @ newline # ''Title:  New  '') = [''Title'' \<mapsto> ''New'']
   \<and> strip (''  '' @ ''x y'' @ '' '') = ''x y''
   \<and> strip ''   '' = []"
proof -
  note th = extract_metadata_example
    [of "''Title:  New  ''" "''Title: Old''" "''  ''" "'' ''" "''x y''"]
  have n: "newline \<notin> set ''Title:  New  ''"
    by code_simp
  have mn: "match_metadata ''Title:  New  '' = Some (''Title'', ''New  '')"
    by code_simp
  have sl: "split_lines ''Title: Old'' = [''Title: Old'']"
    by code_simp
  have mo: "match_metadata ''Title: Old'' = Some (''Title'', ''Old'')"
    by code_simp
  have so: "strip ''Title'' = ''Title''" "strip ''Old'' = ''Old''"
    by code_simp+
  have old: "extract_metadata ''Title: Old'' = [''Title'' \<mapsto> ''Old'']"
    unfolding extract_metadata_def sl by (simp add: mo so)
  have sp: "list_all is_space ''  ''" "list_all is_space '' ''" "list_all is_space ''   ''"
    "\<not> is_space (hd ''x y'')" "\<not> is_space (last ''x y'')" "list_all is_space [] "
    "\<not> is_space (hd ''New'')" "\<not> is_space (last ''New'')"
    by code_simp+
  from extract_metadata_example [of "[]" "[]" "[]" "''  ''" "''New''"] sp
  have sn: "strip ''New  '' = ''New''"
    by simp
  from th n have "extract_metadata (''Title: Old'' @ newline # ''Title:  New  '')
      = (extract_metadata ''Title: Old'')(''Title'' \<mapsto> strip ''New  '')"
    by (simp add: mn)
  then have 1: "extract_metadata (''Title: Old'' @ newline # ''Title:  New  '')
      = [''Title'' \<mapsto> ''New'']"
    by (simp add: old sn)
  from th sp have 2: "strip (''  '' @ ''x y'' @ '' '') = ''x y''"
    by simp
  from extract_metadata_example [of "[]" "[]" "''   ''" "[]" "[]"] sp
  have 3: "strip ''   '' = []"
    by simp
  from 1 2 3 show ?thesis
    by (intro conjI)
qed

text \<open>
  C9. When no line of the Markdown text matches the metadata pattern, the extractor
  returns the empty mapping.
\<close>

theorem extract_metadata_empty:
  "\<forall>l \<in> set (split_lines markdown_content). match_metadata l = None
   \<Longrightarrow> extract_metadata markdown_content = Map.empty"
  by (simp add: extract_metadata_def metadata_loop_no_match)

theorem extract_metadata_empty_witness:
  "map match_metadata (split_lines ''# Heading\<newline>Some prose: not a key\<newline>key:'')
     = [None, None, None]
   \<and> extract_metadata ''# Heading\<newline>Some prose: not a key\<newline>key:'' = Map.empty"
proof -
  have m: "map match_metadata (split_lines ''# Heading\<newline>Some prose: not a key\<newline>key:'')
     = [None, None, None]"
    by code_simp
  have "\<forall>l \<in> set (split_lines ''# Heading\<newline>Some prose: not a key\<newline>key:'').
          match_metadata l = None"
  proof
    fix l
    assume "l \<in> set (split_lines ''# Heading\<newline>Some prose: not a key\<newline>key:'')"
    then have "match_metadata l
        \<in> set (map match_metadata (split_lines ''# Heading\<newline>Some prose: not a key\<newline>key:''))"
      by simp
    then show "match_metadata l = None"
      unfolding m by simp
  qed
  from extract_metadata_empty [OF this] m show ?thesis
    by simp
qed

section \<open>Properties of the Heading Annotator\<close>

lemma toc_loop_fst:
  "fst (toc_loop toc html ms)
     = toc @ map (\<lambda>(level, t). \<lparr>title = t, anchor = make_anchor t\<rparr>) ms"
  by (induction ms arbitrary: toc html) (auto simp: Let_def)

text \<open>
  C5. Every entry of the returned list pairs the title of a match with that title
  lowercased and with each run of white space replaced by one hyphen; nothing else is
  changed, so punctuation stays. For \<open><h1>Hello World</h1>\<close> the list holds the one
  entry (\<open>Hello World\<close>, \<open>hello-world\<close>) and the tag is rewritten to carry that anchor
  as its id.
\<close>

theorem generate_toc_anchor:
  "fst (generate_toc html)
     = map (\<lambda>(level, t). \<lparr>title = t, anchor = sub_spaces (lower t)\<rparr>) (findall html)
   \<and> generate_toc ''<h1>Hello World</h1>''
     = ([\<lparr>title = ''Hello World'', anchor = ''hello-world''\<rparr>],
        ''<h1 id=\"hello-world\">Hello World</h1>'')
   \<and> generate_toc ''<h2>Hello,   World!</h2>''
     = ([\<lparr>title = ''Hello,   World!'', anchor = ''hello,-world!''\<rparr>],
        ''<h2 id=\"hello,-world!\">Hello,   World!</h2>'')"
proof -
  have a: "fst (generate_toc html)
     = map (\<lambda>(level, t). \<lparr>title = t, anchor = sub_spaces (lower t)\<rparr>) (findall html)"
    by (simp add: generate_toc_def toc_loop_fst make_anchor_def)
  have b: "generate_toc ''<h1>Hello World</h1>''
     = ([\<lparr>title = ''Hello World'', anchor = ''hello-world''\<rparr>],
        ''<h1 id=\"hello-world\">Hello World</h1>'')"
    by code_simp
  have c: "generate_toc ''<h2>Hello,   World!</h2>''
     = ([\<lparr>title = ''Hello,   World!'', anchor = ''hello,-world!''\<rparr>],
        ''<h2 id=\"hello,-world!\">Hello,   World!</h2>'')"
    by code_simp
  from a b c show ?thesis
    by simp
qed

lemma match_heading_no_opener: "\<not> opener_at s \<Longrightarrow> match_heading s = None"
  by (cases s rule: opener_at.cases) auto

lemma findall_skip: "free_of_openers u s \<Longrightarrow> findall (u @ s) = findall s"
  by (induction u) (auto simp: findall.simps(2) match_heading_no_opener)

lemma free_of_openers_append:
  "free_of_openers (u @ v) s = (free_of_openers u (v @ s) \<and> free_of_openers v s)"
  by (induction u) auto

lemma opener_at_lt: "opener_at (c # s) \<Longrightarrow> c = CHR ''<''"
  by (cases "c # s" rule: opener_at.cases) auto

lemma free_of_openers_no_lt: "CHR ''<'' \<notin> set u \<Longrightarrow> free_of_openers u s"
  by (induction u) (auto dest: opener_at_lt)

lemma not_level_lt [simp]: "\<not> is_level (CHR ''<'')"
  by (simp add: is_level_def)

lemma opener_at_iff:
  "opener_at s = (\<exists>d rest. is_level d \<and> s = CHR ''<'' # CHR ''h'' # d # CHR ''>'' # rest)"
  by (cases s rule: opener_at.cases) auto

lemma opener_at_append:
  assumes "\<not> opener_at u" and "u \<noteq> []" and "s = [] \<or> hd s \<in> {CHR ''<'', CHR 0x22}"
  shows "\<not> opener_at (u @ s)"
proof
  assume "opener_at (u @ s)"
  then obtain d rest where d: "is_level d"
    and eq: "u @ s = CHR ''<'' # CHR ''h'' # d # CHR ''>'' # rest"
    by (auto simp: opener_at_iff)
  show False
  proof (cases s)
    case Nil
    with eq d assms(1) show False by (auto simp: opener_at_iff)
  next
    case (Cons x xs)
    with assms(3) have x: "x \<noteq> CHR ''h''" "\<not> is_level x" "x \<noteq> CHR ''>''"
      by (auto simp: is_level_def)
    from eq assms(2) obtain u1 where u1: "u = CHR ''<'' # u1" "u1 @ s = CHR ''h'' # d # CHR ''>'' # rest"
      by (cases u) auto
    show False
    proof (cases u1)
      case Nil
      with u1 Cons x show False by simp
    next
      case (Cons a u2)
      with u1 have u2: "u1 = CHR ''h'' # u2" "u2 @ s = d # CHR ''>'' # rest" by auto
      show False
      proof (cases u2)
        case Nil
        with u2 \<open>s = x # xs\<close> x d show False by auto
      next
        case (Cons b u3)
        with u2 have u3: "u2 = d # u3" "u3 @ s = CHR ''>'' # rest" by auto
        show False
        proof (cases u3)
          case Nil
          with u3 \<open>s = x # xs\<close> x show False by auto
        next
          case (Cons c u4)
          with u3 have "u3 = CHR ''>'' # u4" by auto
          with u1 u2 u3 d assms(1) show False by (auto simp: opener_at_iff)
        qed
      qed
    qed
  qed
qed

lemma free_of_openers_has_opener:
  "\<not> has_opener u \<Longrightarrow> s = [] \<or> hd s \<in> {CHR ''<'', CHR 0x22} \<Longrightarrow> free_of_openers u s"
proof (induction u)
  case Nil
  then show ?case by simp
next
  case (Cons c cs)
  then have "\<not> opener_at ((c # cs) @ s)"
    by (intro opener_at_append) simp_all
  with Cons show ?case by simp
qed



lemma length_closer [simp]: "length (closer d) = 5"
  by (simp add: closer_def)

lemma closer_nth:
  assumes "is_level d" and "0 < k" and "k < 5"
  shows "closer d ! k \<noteq> CHR ''<''"
proof -
  from assms(1) have d: "d \<noteq> CHR ''<''"
    by (auto simp: is_level_def)
  from assms(2,3) consider "k = 1" | "k = 2" | "k = 3" | "k = 4"
    by linarith
  then show ?thesis
    using d by cases (simp_all add: closer_def)
qed

lemma closer_hd: "(closer d @ s) ! 0 = CHR ''<''"
  by (simp add: closer_def)

lemma closer_not_early:
  assumes "is_level d" and "\<not> sublist (closer d) u" and "u \<noteq> []"
  shows "\<not> prefix (closer d) (u @ closer d @ s)"
proof
  assume p: "prefix (closer d) (u @ closer d @ s)"
  show False
  proof (cases "5 \<le> length u")
    case True
    from p True have "prefix (closer d) u"
      by (intro prefix_length_prefix [of "closer d" "u @ closer d @ s" u]) simp_all
    with assms(2) show False
      by (auto dest: prefix_imp_sublist)
  next
    case False
    with assms(3) have k: "0 < length u" "length u < 5"
      by simp_all
    from p obtain r where r: "u @ closer d @ s = closer d @ r"
      by (auto simp: prefix_def)
    have "(u @ closer d @ s) ! length u = CHR ''<''"
      using closer_hd [of d s] by (simp add: nth_append)
    moreover have "(closer d @ r) ! length u = closer d ! length u"
      using k by (simp add: nth_append)
    ultimately have "closer d ! length u = CHR ''<''"
      using r by simp
    with closer_nth [OF assms(1) k] show False
      by simp
  qed
qed

lemma sublist_Cons_D: "\<not> sublist xs (y # ys) \<Longrightarrow> \<not> sublist xs ys"
  by (auto simp: sublist_Cons_right)

lemma lazy_title_clean:
  assumes "is_level d"
  shows "newline \<notin> set t \<Longrightarrow> \<not> sublist (closer d) t \<Longrightarrow>
         lazy_title d (t @ closer d @ s) = Some (t, s)"
proof (induction t)
  case Nil
  then show ?case
    by (cases "closer d @ s") (auto simp: closer_def)
next
  case (Cons c t)
  have "\<not> prefix (closer d) ((c # t) @ closer d @ s)"
    using assms Cons.prems(2) by (rule closer_not_early) simp
  moreover from Cons.prems have "c \<noteq> newline" "newline \<notin> set t" "\<not> sublist (closer d) t"
    by (auto dest: sublist_Cons_D)
  ultimately show ?case
    using Cons.IH by simp
qed

lemma bare_tag_closer: "bare_tag d t = CHR ''<'' # CHR ''h'' # d # CHR ''>'' # t @ closer d"
  by (simp add: bare_tag_def closer_def)

lemma match_heading_bare_tag:
  "is_level d \<Longrightarrow> clean_title d t \<Longrightarrow> match_heading (bare_tag d t @ s) = Some (d, t, s)"
  by (simp add: bare_tag_closer lazy_title_clean clean_title_def)

lemma findall_bare_tag:
  "is_level d \<Longrightarrow> clean_title d t \<Longrightarrow> findall (bare_tag d t @ s) = (d, t) # findall s"
  using match_heading_bare_tag [of d t s]
  by (simp add: bare_tag_closer findall.simps(2))

lemma title_prefix_eq:
  assumes "is_level d"
  shows "\<not> sublist (closer d) t \<Longrightarrow> \<not> sublist (closer d) t' \<Longrightarrow>
         prefix (t @ closer d) (t' @ closer d @ s) \<Longrightarrow> t = t'"
proof (induction t arbitrary: t')
  case Nil
  show ?case
  proof (rule ccontr)
    assume "[] \<noteq> t'"
    then have "t' \<noteq> []" by simp
    from closer_not_early [OF assms Nil.prems(2) this, of s] Nil.prems(3)
    show False by simp
  qed
next
  case (Cons c t)
  show ?case
  proof (cases t')
    case Nil
    with Cons.prems(3) have p: "prefix ((c # t) @ closer d) (closer d @ s)"
      by simp
    then obtain r where r: "closer d @ s = (c # t) @ closer d @ r"
      by (auto simp: prefix_def)
    show ?thesis
    proof (cases "5 \<le> length (c # t)")
      case True
      from r have "prefix (closer d) ((c # t) @ closer d @ r)"
        by (metis prefixI)
      with True have "prefix (closer d) (c # t)"
        by (intro prefix_length_prefix [of "closer d" "(c # t) @ closer d @ r" "c # t"]) simp_all
      with Cons.prems(1) show ?thesis
        by (auto dest: prefix_imp_sublist)
    next
      case False
      then have k: "0 < length (c # t)" "length (c # t) < 5"
        by simp_all
      have "((c # t) @ closer d @ r) ! length (c # t) = CHR ''<''"
        using closer_hd [of d r] nth_append_length_plus [of "c # t" "closer d @ r" 0]
        by (simp del: append.simps nth_append_length_plus)
      moreover have "(closer d @ s) ! length (c # t) = closer d ! length (c # t)"
        using k by (simp add: nth_append)
      ultimately have "closer d ! length (c # t) = CHR ''<''"
        using r by simp
      with closer_nth [OF assms k] show ?thesis
        by simp
    qed
  next
    case (Cons c' t'')
    with Cons.prems have "c = c'" "\<not> sublist (closer d) t" "\<not> sublist (closer d) t''"
      "prefix (t @ closer d) (t'' @ closer d @ s)"
      by (auto dest: sublist_Cons_D)
    with Cons.IH [of t''] Cons show ?thesis
      by simp
  qed
qed

lemma prefix_bare_tag:
  assumes "is_level d" and "clean_title d t" and "clean_title d' t'"
    and "prefix (bare_tag d t) (bare_tag d' t' @ s)"
  shows "d = d' \<and> t = t'"
proof -
  from assms(4) have d: "d = d'"
    by (simp add: bare_tag_closer)
  from assms(4) have p: "prefix (t @ closer d) (t' @ closer d @ s)"
    by (auto simp: bare_tag_closer)
  from assms(2,3) d have "\<not> sublist (closer d) t" "\<not> sublist (closer d) t'"
    by (auto simp: clean_title_def)
  from title_prefix_eq [OF assms(1) this p] d show ?thesis
    by simp
qed

lemma replace_skip:
  assumes "free_of_openers u s" and "opener_at old"
  shows "replace (u @ s) old new = u @ replace s old new"
  using assms(1)
proof (induction u)
  case Nil
  then show ?case by simp
next
  case (Cons c cs)
  have "\<not> prefix old (c # cs @ s)"
  proof
    assume "prefix old (c # cs @ s)"
    then obtain r where "c # cs @ s = old @ r"
      by (auto simp: prefix_def)
    with assms(2) have "opener_at (c # cs @ s)"
      by (auto simp: opener_at_iff)
    with Cons.prems show False by simp
  qed
  moreover from assms(2) have "old \<noteq> []"
    by (auto simp: opener_at_iff)
  ultimately have "replace ((c # cs) @ s) old new = c # replace (cs @ s) old new"
    by (subst replace.simps) simp
  with Cons show ?case by simp
qed

lemma replace_hit:
  assumes "old \<noteq> []"
  shows "replace (old @ s) old new = new @ replace s old new"
proof -
  from assms obtain c cs where "old @ s = c # cs"
    by (cases old) auto
  moreover have "prefix old (old @ s)" "drop (length old) (old @ s) = s"
    by simp_all
  ultimately show ?thesis
    using assms by (subst replace.simps) (simp del: append_eq_Cons_conv)
qed

lemma opener_at_bare_tag: "is_level d \<Longrightarrow> opener_at (bare_tag d t)"
  by (simp add: bare_tag_closer)

lemma free_of_openers_id_tag:
  assumes "is_level d" and "\<not> has_opener a" and "\<not> has_opener t"
  shows "free_of_openers (id_tag d a t) s"
proof -
  have 1: "id_tag d a t = [CHR ''<''] @ (CHR ''h'' # d # '' id=\"'') @ a @ ''\">'' @ t
             @ [CHR ''<''] @ (CHR ''/'' # CHR ''h'' # d # ''>'')"
    by (simp add: id_tag_def)
  from assms(1) have d: "d \<noteq> CHR ''<''"
    by (auto simp: is_level_def)
  then have 2: "CHR ''<'' \<notin> set (CHR ''h'' # d # '' id=\"'')"
    and 3: "CHR ''<'' \<notin> set (CHR ''/'' # CHR ''h'' # d # ''>'')"
    and 4: "CHR ''<'' \<notin> set ''\">''"
    by auto
  have a: "free_of_openers a (''\">'' @ t @ [CHR ''<''] @ (CHR ''/'' # CHR ''h'' # d # ''>'') @ s)"
    using assms(2) by (rule free_of_openers_has_opener) simp
  have t: "free_of_openers t ([CHR ''<''] @ (CHR ''/'' # CHR ''h'' # d # ''>'') @ s)"
    using assms(3) by (rule free_of_openers_has_opener) simp
  show ?thesis
    unfolding 1 free_of_openers_append
    using free_of_openers_no_lt [OF 2] free_of_openers_no_lt [OF 3] free_of_openers_no_lt [OF 4] a t
    by simp
qed

lemma free_of_openers_tl_bare_tag:
  assumes "is_level d" and "\<not> has_opener t"
  shows "free_of_openers (CHR ''h'' # d # CHR ''>'' # t @ closer d) s"
proof -
  have 1: "CHR ''h'' # d # CHR ''>'' # t @ closer d
      = [CHR ''h'', d, CHR ''>''] @ t @ [CHR ''<''] @ (CHR ''/'' # CHR ''h'' # d # ''>'')"
    by (simp add: closer_def)
  from assms(1) have d: "d \<noteq> CHR ''<''"
    by (auto simp: is_level_def)
  then have 2: "CHR ''<'' \<notin> set [CHR ''h'', d, CHR ''>'']"
    and 3: "CHR ''<'' \<notin> set (CHR ''/'' # CHR ''h'' # d # ''>'')"
    by auto
  have t: "free_of_openers t ([CHR ''<''] @ (CHR ''/'' # CHR ''h'' # d # ''>'') @ s)"
    using assms(2) by (rule free_of_openers_has_opener) simp
  show ?thesis
    unfolding 1 free_of_openers_append
    using free_of_openers_no_lt [OF 2] free_of_openers_no_lt [OF 3] t
    by simp
qed

lemma element_start: "\<exists>r. element h = CHR ''<'' # r"
  by (cases h) (simp add: element_def id_tag_def bare_tag_def)

lemma render_marked_start: "render_marked hs = [] \<or> hd (render_marked hs) = CHR ''<''"
proof (cases hs)
  case Nil
  then show ?thesis by (simp add: render_marked_def)
next
  case (Cons h hs')
  obtain r where "element h = CHR ''<'' # r"
    using element_start by blast
  with Cons show ?thesis by (simp add: render_marked_def)
qed

lemma replace_miss:
  "old \<noteq> [] \<Longrightarrow> \<not> prefix old (c # cs) \<Longrightarrow> replace (c # cs) old new = c # replace cs old new"
  by (subst replace.simps) simp

lemma render_marked_Cons: "render_marked (h # hs) = element h @ render_marked hs"
  by (simp add: render_marked_def)

lemma replace_marked:
  assumes "is_level d" and "clean_title d t"
  shows "list_all (\<lambda>(f, h). wf_heading h) hs \<Longrightarrow>
         replace (render_marked hs) (bare_tag d t) (id_tag d (make_anchor t) t)
           = render_marked (map (mark d t) hs)"
proof (induction hs)
  case Nil
  show ?case
    by (subst replace.simps) (simp add: render_marked_def bare_tag_def)
next
  case (Cons h hs)
  obtain f d' t' p where h: "h = (f, d', t', p)"
    by (cases h) auto
  let ?old = "bare_tag d t"
  let ?new = "id_tag d (make_anchor t) t"
  let ?s = "render_marked hs"
  from Cons.prems h have wf: "is_level d'" "clean_title d' t'" "\<not> has_opener p"
    and rest: "list_all (\<lambda>(f, h). wf_heading h) hs"
    by (auto simp: wf_heading_def)
  have old: "opener_at ?old"
    using assms(1) by (rule opener_at_bare_tag)
  then have ne: "?old \<noteq> []"
    by (auto simp: opener_at_iff)
  have IH: "replace ?s ?old ?new = render_marked (map (mark d t) hs)"
    using Cons.IH rest by simp
  have fp: "free_of_openers p ?s"
    using wf(3) render_marked_start [of hs] by (intro free_of_openers_has_opener) auto
  have rp: "replace (p @ ?s) ?old ?new = p @ render_marked (map (mark d t) hs)"
    using replace_skip [OF fp old] IH by simp
  show ?case
  proof (cases f)
    case True
    have "free_of_openers (id_tag d' (make_anchor t') t') (p @ ?s)"
      using wf by (intro free_of_openers_id_tag) (auto simp: clean_title_def)
    from replace_skip [OF this old] rp True h show ?thesis
      by (simp add: render_marked_Cons element_def mark_def)
  next
    case False
    show ?thesis
    proof (cases "d' = d \<and> t' = t")
      case True
      with False h rp replace_hit [OF ne, of "p @ ?s" ?new] show ?thesis
        by (simp add: render_marked_Cons element_def mark_def)
    next
      case diff: False
      have np: "\<not> prefix ?old (bare_tag d' t' @ p @ ?s)"
        using prefix_bare_tag [OF assms(1,2) wf(2), of "p @ ?s"] diff by auto
      have sp: "bare_tag d' t' @ p @ ?s
          = CHR ''<'' # (CHR ''h'' # d' # CHR ''>'' # t' @ closer d') @ p @ ?s"
        by (simp add: bare_tag_closer)
      have "replace (bare_tag d' t' @ p @ ?s) ?old ?new
          = CHR ''<'' # replace ((CHR ''h'' # d' # CHR ''>'' # t' @ closer d') @ p @ ?s) ?old ?new"
        using np unfolding sp by (rule replace_miss [OF ne])
      also have "replace ((CHR ''h'' # d' # CHR ''>'' # t' @ closer d') @ p @ ?s) ?old ?new
          = (CHR ''h'' # d' # CHR ''>'' # t' @ closer d') @ replace (p @ ?s) ?old ?new"
        using wf by (intro replace_skip free_of_openers_tl_bare_tag old) (auto simp: clean_title_def)
      finally have "replace (bare_tag d' t' @ p @ ?s) ?old ?new
          = bare_tag d' t' @ replace (p @ ?s) ?old ?new"
        by (simp add: bare_tag_closer [of d' t'])
      moreover have "mark d t h = h"
        using diff False h by (auto simp: mark_def)
      moreover have "element h = bare_tag d' t' @ p"
        using False h by (simp add: element_def)
      ultimately show ?thesis
        using rp by (simp add: render_marked_Cons)
    qed
  qed
qed

lemma render_doc_marked: "render_doc p0 hs = p0 @ render_marked (map (Pair False) hs)"
  by (simp add: render_doc_def render_marked_def element_def comp_def case_prod_unfold)

lemma annotated_doc_marked: "annotated_doc p0 hs = p0 @ render_marked (map (Pair True) hs)"
  by (simp add: annotated_doc_def render_marked_def element_def comp_def case_prod_unfold)

lemma findall_render_marked:
  "list_all wf_heading hs \<Longrightarrow>
   findall (render_marked (map (Pair False) hs)) = map (\<lambda>(d, t, p). (d, t)) hs"
proof (induction hs)
  case Nil
  then show ?case by (simp add: render_marked_def)
next
  case (Cons h hs)
  obtain d t p where h: "h = (d, t, p)"
    by (cases h) auto
  let ?s = "render_marked (map (Pair False) hs)"
  from Cons.prems h have wf: "is_level d" "clean_title d t" "\<not> has_opener p"
    and rest: "list_all wf_heading hs"
    by (auto simp: wf_heading_def)
  have "free_of_openers p ?s"
    using wf(3) render_marked_start [of "map (Pair False) hs"]
    by (intro free_of_openers_has_opener) auto
  then have "findall (p @ ?s) = findall ?s"
    by (rule findall_skip)
  with findall_bare_tag [OF wf(1,2), of "p @ ?s"] Cons.IH [OF rest] h show ?case
    by (simp add: render_marked_Cons element_def)
qed

lemma findall_render_doc:
  assumes "wf_doc p0 hs"
  shows "findall (render_doc p0 hs) = map (\<lambda>(d, t, p). (d, t)) hs"
proof -
  from assms have "free_of_openers p0 (render_marked (map (Pair False) hs))"
    using render_marked_start [of "map (Pair False) hs"]
    by (intro free_of_openers_has_opener) (auto simp: wf_doc_def)
  then show ?thesis
    using assms by (simp add: render_doc_marked findall_skip findall_render_marked wf_doc_def)
qed

lemma marks_Cons: "marks ms' (mark d t h) = marks ((d, t) # ms') h"
  by (cases h) (auto simp: marks_def mark_def)

lemma toc_loop_marked:
  assumes "\<not> has_opener p0"
  shows "list_all (\<lambda>(d, t). is_level d \<and> clean_title d t) ms \<Longrightarrow>
         list_all (\<lambda>(f, h). wf_heading h) hs \<Longrightarrow>
         toc_loop toc (p0 @ render_marked hs) ms
           = (toc @ map (\<lambda>(d, t). \<lparr>title = t, anchor = make_anchor t\<rparr>) ms,
              p0 @ render_marked (map (marks ms) hs))"
proof (induction ms arbitrary: toc hs)
  case Nil
  have "map (marks []) hs = hs"
    by (induction hs) (auto simp: marks_def)
  then show ?case by simp
next
  case (Cons m ms)
  obtain d t where m: "m = (d, t)"
    by (cases m) auto
  from Cons.prems(1) m have dt: "is_level d" "clean_title d t"
    and rest: "list_all (\<lambda>(d, t). is_level d \<and> clean_title d t) ms"
    by auto
  let ?old = "bare_tag d t"
  let ?new = "id_tag d (make_anchor t) t"
  have "free_of_openers p0 (render_marked hs)"
    using assms render_marked_start [of hs] by (intro free_of_openers_has_opener) auto
  from replace_skip [OF this opener_at_bare_tag [OF dt(1)]]
  have r: "replace (p0 @ render_marked hs) ?old ?new = p0 @ render_marked (map (mark d t) hs)"
    using replace_marked [OF dt Cons.prems(2)] by simp
  have wf': "list_all (\<lambda>(f, h). wf_heading h) (map (mark d t) hs)"
    using Cons.prems(2) by (induction hs) (auto simp: mark_def)
  have mm: "map (marks ms) (map (mark d t) hs) = map (marks ((d, t) # ms)) hs"
    by (simp add: marks_Cons)
  have "toc_loop toc (p0 @ render_marked hs) (m # ms)
      = toc_loop (toc @ [\<lparr>title = t, anchor = make_anchor t\<rparr>])
          (p0 @ render_marked (map (mark d t) hs)) ms"
    using r m by (simp add: Let_def)
  also have "\<dots> = ((toc @ [\<lparr>title = t, anchor = make_anchor t\<rparr>])
        @ map (\<lambda>(d, t). \<lparr>title = t, anchor = make_anchor t\<rparr>) ms,
      p0 @ render_marked (map (marks ms) (map (mark d t) hs)))"
    by (rule Cons.IH [OF rest wf'])
  finally show ?case
    unfolding mm using m by simp
qed

lemma generate_toc_doc:
  assumes "wf_doc p0 hs"
  shows "generate_toc (render_doc p0 hs) = (toc_of hs, annotated_doc p0 hs)"
proof -
  let ?ms = "map (\<lambda>(d, t, p). (d, t)) hs"
  from assms have p0: "\<not> has_opener p0" and wf: "list_all wf_heading hs"
    by (auto simp: wf_doc_def)
  from wf have 1: "list_all (\<lambda>(d, t). is_level d \<and> clean_title d t) ?ms"
    by (induction hs) (auto simp: wf_heading_def)
  from wf have 2: "list_all (\<lambda>(f, h). wf_heading h) (map (Pair False) hs)"
    by (induction hs) auto
  have 3: "map (marks ?ms) (map (Pair False) hs) = map (Pair True) hs"
    by (auto simp: marks_def image_iff intro!: bexI)
  have 4: "map (\<lambda>(d, t). \<lparr>title = t, anchor = make_anchor t\<rparr>) ?ms = toc_of hs"
    by (simp add: toc_of_def comp_def case_prod_unfold)
  show ?thesis
    unfolding generate_toc_def findall_render_doc [OF assms]
    unfolding render_doc_marked toc_loop_marked [OF p0 1 2] 3 4 annotated_doc_marked
    by simp
qed

lemma rewritten_doc_marked:
  "rewritten_doc sel p0 hs = p0 @ render_marked (map (\<lambda>(d, t, p). (sel (d, t), d, t, p)) hs)"
  by (induction hs) (auto simp: rewritten_doc_def render_marked_def element_def)

lemma rewritten_doc_append:
  "rewritten_doc sel p0 (hs @ hs') = rewritten_doc sel p0 hs @ rewritten_doc sel [] hs'"
  by (simp add: rewritten_doc_def)

lemma rewritten_doc_Cons:
  "rewritten_doc sel [] ((d, t, p) # hs)
     = (if sel (d, t) then id_tag d (make_anchor t) t else bare_tag d t) @ p
       @ rewritten_doc sel [] hs"
  by (simp add: rewritten_doc_def)

lemma annotated_doc_rewritten: "annotated_doc p0 hs = rewritten_doc (\<lambda>h. True) p0 hs"
  by (simp add: annotated_doc_def rewritten_doc_def)

lemma replace_render_doc:
  assumes "wf_doc p0 hs" and "is_level d" and "clean_title d t"
  shows "replace (render_doc p0 hs) (bare_tag d t) (id_tag d (make_anchor t) t)
           = rewritten_doc (\<lambda>h. h = (d, t)) p0 hs"
proof -
  from assms(1) have p0: "\<not> has_opener p0" and wf: "list_all wf_heading hs"
    by (auto simp: wf_doc_def)
  from wf have wf': "list_all (\<lambda>(f, h). wf_heading h) (map (Pair False) hs)"
    by (induction hs) auto
  have "free_of_openers p0 (render_marked (map (Pair False) hs))"
    using p0 render_marked_start [of "map (Pair False) hs"]
    by (intro free_of_openers_has_opener) auto
  from replace_skip [OF this opener_at_bare_tag [OF assms(2)]]
    replace_marked [OF assms(2,3) wf']
  have "replace (render_doc p0 hs) (bare_tag d t) (id_tag d (make_anchor t) t)
      = p0 @ render_marked (map (mark d t) (map (Pair False) hs))"
    by (simp add: render_doc_marked)
  also have "map (mark d t) (map (Pair False) hs)
      = map (\<lambda>(d', t', p). ((d', t') = (d, t), d', t', p)) hs"
    by (auto simp: mark_def)
  finally show ?thesis
    by (simp add: rewritten_doc_marked)
qed




lemma sublist_annotated_doc:
  assumes "(d, t, p) \<in> set hs"
  shows "sublist (id_tag d (make_anchor t) t) (annotated_doc p0 hs)"
proof -
  from assms obtain hs1 hs2 where "hs = hs1 @ (d, t, p) # hs2"
    by (auto dest: split_list)
  then have "annotated_doc p0 hs
      = annotated_doc p0 hs1 @ id_tag d (make_anchor t) t @ (p @ annotated_doc [] hs2)"
    by (simp add: annotated_doc_def)
  then show ?thesis
    unfolding sublist_def by blast
qed

text \<open>
  C2, as stated, fails. A title that holds another heading's tag: the first heading is
  given the anchor \<open><h2>a-b</h2>\<close>, the pass for the second heading then rewrites inside
  that id, and the anchor listed in the TOC is the id of no tag. Two distinct titles with
  the same anchor: \<open>Intro\<close> and \<open>intro\<close> both get \<open>intro\<close>, which is then the id of two
  tags.
\<close>

theorem toc_anchor_not_heading_id:
  "generate_toc ''<h1><h2>a b</h2></h1><h2>a-b</h2>''
     = ([\<lparr>title = ''<h2>a b</h2>'', anchor = ''<h2>a-b</h2>''\<rparr>,
         \<lparr>title = ''a-b'', anchor = ''a-b''\<rparr>],
        ''<h1 id=\"<h2 id=\"a-b\">a-b</h2>\"><h2>a b</h2></h1><h2 id=\"a-b\">a-b</h2>'')
   \<and> occurrences ''id=\"<h2>a-b</h2>\"''
        (snd (generate_toc ''<h1><h2>a b</h2></h1><h2>a-b</h2>'')) = 0
   \<and> generate_toc ''<h1>Intro</h1><h2>intro</h2>''
     = ([\<lparr>title = ''Intro'', anchor = ''intro''\<rparr>, \<lparr>title = ''intro'', anchor = ''intro''\<rparr>],
        ''<h1 id=\"intro\">Intro</h1><h2 id=\"intro\">intro</h2>'')
   \<and> occurrences ''id=\"intro\"'' (snd (generate_toc ''<h1>Intro</h1><h2>intro</h2>'')) = 2"
proof -
  have 1: "generate_toc ''<h1><h2>a b</h2></h1><h2>a-b</h2>''
     = ([\<lparr>title = ''<h2>a b</h2>'', anchor = ''<h2>a-b</h2>''\<rparr>,
         \<lparr>title = ''a-b'', anchor = ''a-b''\<rparr>],
        ''<h1 id=\"<h2 id=\"a-b\">a-b</h2>\"><h2>a b</h2></h1><h2 id=\"a-b\">a-b</h2>'')"
    by code_simp
  have 2: "occurrences ''id=\"<h2>a-b</h2>\"''
        (snd (generate_toc ''<h1><h2>a b</h2></h1><h2>a-b</h2>'')) = 0"
    by code_simp
  have 3: "generate_toc ''<h1>Intro</h1><h2>intro</h2>''
     = ([\<lparr>title = ''Intro'', anchor = ''intro''\<rparr>, \<lparr>title = ''intro'', anchor = ''intro''\<rparr>],
        ''<h1 id=\"intro\">Intro</h1><h2 id=\"intro\">intro</h2>'')"
    by code_simp
  have 4: "occurrences ''id=\"intro\"''
        (snd (generate_toc ''<h1>Intro</h1><h2>intro</h2>'')) = 2"
    by code_simp
  from 1 2 3 4 show ?thesis
    by (simp only: simp_thms)
qed

text \<open>
  C2, amended. For a document of text without bare opening heading tags and of bare
  headings with clean titles, in any number and with or without repetitions, the
  returned list holds title and anchor of every heading in document order and the
  returned text is the document with every heading tag carrying exactly that anchor as
  its id, everything else unchanged. So the anchor of the i-th entry is the id of the
  i-th heading tag (and of every other heading whose title has the same anchor).
\<close>

theorem toc_anchors_are_heading_ids:
  assumes "wf_doc p0 hs"
  shows "generate_toc (render_doc p0 hs) = (toc_of hs, annotated_doc p0 hs)
       \<and> (\<forall>i < length hs.
            title (toc_of hs ! i) = fst (snd (hs ! i))
          \<and> sublist (id_tag (fst (hs ! i)) (anchor (toc_of hs ! i)) (fst (snd (hs ! i))))
              (annotated_doc p0 hs))"
proof (intro conjI allI impI)
  show "generate_toc (render_doc p0 hs) = (toc_of hs, annotated_doc p0 hs)"
    using assms by (rule generate_toc_doc)
next
  fix i
  assume i: "i < length hs"
  obtain d t p where h: "hs ! i = (d, t, p)"
    by (cases "hs ! i") auto
  with i show "title (toc_of hs ! i) = fst (snd (hs ! i))"
    by (simp add: toc_of_def)
  from i h have "(d, t, p) \<in> set hs"
    by (metis nth_mem)
  from sublist_annotated_doc [OF this, of p0] i h
  show "sublist (id_tag (fst (hs ! i)) (anchor (toc_of hs ! i)) (fst (snd (hs ! i))))
          (annotated_doc p0 hs)"
    by (simp add: toc_of_def)
qed

theorem toc_anchors_are_heading_ids_witness:
  "wf_doc ''<p>intro</p>''
     [(CHR ''1'', ''Hello <em>World</em>'', ''<p>text</p><h3 class=\"x\">skip</h3>''),
      (CHR ''2'', ''Part  Two'', ''<hr />'')]
   \<and> generate_toc
       ''<p>intro</p><h1>Hello <em>World</em></h1><p>text</p><h3 class=\"x\">skip</h3><h2>Part  Two</h2><hr />''
     = ([\<lparr>title = ''Hello <em>World</em>'', anchor = ''hello-<em>world</em>''\<rparr>,
         \<lparr>title = ''Part  Two'', anchor = ''part-two''\<rparr>],
        ''<p>intro</p><h1 id=\"hello-<em>world</em>\">Hello <em>World</em></h1><p>text</p><h3 class=\"x\">skip</h3><h2 id=\"part-two\">Part  Two</h2><hr />'')"
proof -
  let ?hs = "[(CHR ''1'', ''Hello <em>World</em>'', ''<p>text</p><h3 class=\"x\">skip</h3>''),
      (CHR ''2'', ''Part  Two'', ''<hr />'')]"
  have wf: "wf_doc ''<p>intro</p>'' ?hs"
    by code_simp
  have r: "render_doc ''<p>intro</p>'' ?hs
     = ''<p>intro</p><h1>Hello <em>World</em></h1><p>text</p><h3 class=\"x\">skip</h3><h2>Part  Two</h2><hr />''"
    by code_simp
  have t: "toc_of ?hs
     = [\<lparr>title = ''Hello <em>World</em>'', anchor = ''hello-<em>world</em>''\<rparr>,
        \<lparr>title = ''Part  Two'', anchor = ''part-two''\<rparr>]"
    by code_simp
  have a: "annotated_doc ''<p>intro</p>'' ?hs
     = ''<p>intro</p><h1 id=\"hello-<em>world</em>\">Hello <em>World</em></h1><p>text</p><h3 class=\"x\">skip</h3><h2 id=\"part-two\">Part  Two</h2><hr />''"
    by code_simp
  from toc_anchors_are_heading_ids [OF wf, THEN conjunct1] wf show ?thesis
    unfolding r t a by (simp only: simp_thms)
qed

text \<open>
  C3, as stated, fails. The text holds the tag \<open><h1>a<h2>b</h2></h1>\<close> twice, after a
  heading \<open><h2>b</h2>\<close>. The pass for that first heading rewrites inside both, so the
  pass for the two identical headings finds nothing: the TOC lists both with the same
  anchor, and neither tag gets an id.
\<close>

theorem duplicate_headings_left_bare:
  "occurrences (bare_tag (CHR ''1'') ''a<h2>b</h2>'')
     ''<h2>b</h2><h1>a<h2>b</h2></h1><h1>a<h2>b</h2></h1>'' = 2
   \<and> generate_toc ''<h2>b</h2><h1>a<h2>b</h2></h1><h1>a<h2>b</h2></h1>''
     = ([\<lparr>title = ''b'', anchor = ''b''\<rparr>,
         \<lparr>title = ''a<h2>b</h2>'', anchor = ''a<h2>b</h2>''\<rparr>,
         \<lparr>title = ''a<h2>b</h2>'', anchor = ''a<h2>b</h2>''\<rparr>],
        ''<h2 id=\"b\">b</h2><h1>a<h2 id=\"b\">b</h2></h1><h1>a<h2 id=\"b\">b</h2></h1>'')
   \<and> occurrences ''<h1 id=''
        (snd (generate_toc ''<h2>b</h2><h1>a<h2>b</h2></h1><h1>a<h2>b</h2></h1>'')) = 0"
proof -
  have 1: "occurrences (bare_tag (CHR ''1'') ''a<h2>b</h2>'')
     ''<h2>b</h2><h1>a<h2>b</h2></h1><h1>a<h2>b</h2></h1>'' = 2"
    by code_simp
  have 2: "generate_toc ''<h2>b</h2><h1>a<h2>b</h2></h1><h1>a<h2>b</h2></h1>''
     = ([\<lparr>title = ''b'', anchor = ''b''\<rparr>,
         \<lparr>title = ''a<h2>b</h2>'', anchor = ''a<h2>b</h2>''\<rparr>,
         \<lparr>title = ''a<h2>b</h2>'', anchor = ''a<h2>b</h2>''\<rparr>],
        ''<h2 id=\"b\">b</h2><h1>a<h2 id=\"b\">b</h2></h1><h1>a<h2 id=\"b\">b</h2></h1>'')"
    by code_simp
  have 3: "occurrences ''<h1 id=''
        (snd (generate_toc ''<h2>b</h2><h1>a<h2>b</h2></h1><h1>a<h2>b</h2></h1>'')) = 0"
    by code_simp
  from 1 2 3 show ?thesis
    by (simp only: simp_thms)
qed

text \<open>
  C3, amended. In a document of text without bare opening heading tags and of bare
  headings with clean titles, two headings with the same level and title get the same
  anchor: the one call of \<^verbatim>\<open>replace\<close> for that level and title rewrites both tags (and
  every other heading with that level and title, and nothing else), both entries of the
  returned list carry that anchor, and both tags of the returned text carry it as id.
  For every input, entries of the returned list that come from equal matches are equal.
\<close>

theorem duplicate_headings_same_anchor:
  assumes "wf_doc p0 (hs1 @ (d, t, p1) # hs2 @ (d, t, p2) # hs3)"
  shows "replace (render_doc p0 (hs1 @ (d, t, p1) # hs2 @ (d, t, p2) # hs3))
           (bare_tag d t) (id_tag d (make_anchor t) t)
         = rewritten_doc (\<lambda>h. h = (d, t)) p0 hs1 @ id_tag d (make_anchor t) t @ p1
           @ rewritten_doc (\<lambda>h. h = (d, t)) [] hs2 @ id_tag d (make_anchor t) t @ p2
           @ rewritten_doc (\<lambda>h. h = (d, t)) [] hs3
       \<and> generate_toc (render_doc p0 (hs1 @ (d, t, p1) # hs2 @ (d, t, p2) # hs3))
         = (toc_of hs1 @ \<lparr>title = t, anchor = make_anchor t\<rparr> # toc_of hs2
              @ \<lparr>title = t, anchor = make_anchor t\<rparr> # toc_of hs3,
            annotated_doc p0 hs1 @ id_tag d (make_anchor t) t @ p1
              @ annotated_doc [] hs2 @ id_tag d (make_anchor t) t @ p2
              @ annotated_doc [] hs3)
       \<and> (\<forall>i < length (findall html). \<forall>j < length (findall html).
            findall html ! i = findall html ! j
            \<longrightarrow> fst (generate_toc html) ! i = fst (generate_toc html) ! j)"
proof -
  let ?hs = "hs1 @ (d, t, p1) # hs2 @ (d, t, p2) # hs3"
  from assms have dt: "is_level d" "clean_title d t"
    by (auto simp: wf_doc_def wf_heading_def)
  have 1: "replace (render_doc p0 ?hs) (bare_tag d t) (id_tag d (make_anchor t) t)
         = rewritten_doc (\<lambda>h. h = (d, t)) p0 ?hs"
    using assms dt by (rule replace_render_doc)
  have 2: "generate_toc (render_doc p0 ?hs) = (toc_of ?hs, annotated_doc p0 ?hs)"
    using assms by (rule generate_toc_doc)
  have 3: "\<forall>i < length (findall html). \<forall>j < length (findall html).
            findall html ! i = findall html ! j
            \<longrightarrow> fst (generate_toc html) ! i = fst (generate_toc html) ! j"
    by (simp add: generate_toc_def toc_loop_fst)
  have 4: "rewritten_doc (\<lambda>h. h = (d, t)) p0 ?hs
         = rewritten_doc (\<lambda>h. h = (d, t)) p0 hs1 @ id_tag d (make_anchor t) t @ p1
           @ rewritten_doc (\<lambda>h. h = (d, t)) [] hs2 @ id_tag d (make_anchor t) t @ p2
           @ rewritten_doc (\<lambda>h. h = (d, t)) [] hs3"
    by (simp add: rewritten_doc_append rewritten_doc_Cons)
  have 5: "(toc_of ?hs, annotated_doc p0 ?hs)
         = (toc_of hs1 @ \<lparr>title = t, anchor = make_anchor t\<rparr> # toc_of hs2
              @ \<lparr>title = t, anchor = make_anchor t\<rparr> # toc_of hs3,
            annotated_doc p0 hs1 @ id_tag d (make_anchor t) t @ p1
              @ annotated_doc [] hs2 @ id_tag d (make_anchor t) t @ p2
              @ annotated_doc [] hs3)"
    by (simp add: rewritten_doc_append rewritten_doc_Cons annotated_doc_rewritten toc_of_def)
  from 1 [unfolded 4] 2 [unfolded 5] 3 show ?thesis
    by (intro conjI)
qed

theorem duplicate_headings_same_anchor_witness:
  "wf_doc ''<p>intro</p>''
     ([] @ (CHR ''2'', ''Setup'', ''<p>a</p>'') # [(CHR ''3'', ''Notes'', ''<hr />'')]
         @ (CHR ''2'', ''Setup'', ''<p>b</p>'') # [])
   \<and> generate_toc
       ''<p>intro</p><h2>Setup</h2><p>a</p><h3>Notes</h3><hr /><h2>Setup</h2><p>b</p>''
     = ([\<lparr>title = ''Setup'', anchor = ''setup''\<rparr>, \<lparr>title = ''Notes'', anchor = ''notes''\<rparr>,
         \<lparr>title = ''Setup'', anchor = ''setup''\<rparr>],
        ''<p>intro</p><h2 id=\"setup\">Setup</h2><p>a</p><h3 id=\"notes\">Notes</h3><hr /><h2 id=\"setup\">Setup</h2><p>b</p>'')
   \<and> replace ''<p>intro</p><h2>Setup</h2><p>a</p><h3>Notes</h3><hr /><h2>Setup</h2><p>b</p>''
       ''<h2>Setup</h2>'' ''<h2 id=\"setup\">Setup</h2>''
     = ''<p>intro</p><h2 id=\"setup\">Setup</h2><p>a</p><h3>Notes</h3><hr /><h2 id=\"setup\">Setup</h2><p>b</p>''"
proof -
  let ?hs2 = "[(CHR ''3'', ''Notes'', ''<hr />'')]"
  let ?doc = "[] @ (CHR ''2'', ''Setup'', ''<p>a</p>'') # ?hs2
         @ (CHR ''2'', ''Setup'', ''<p>b</p>'') # []"
  have wf: "wf_doc ''<p>intro</p>'' ?doc"
    by code_simp
  have r: "render_doc ''<p>intro</p>'' ?doc
     = ''<p>intro</p><h2>Setup</h2><p>a</p><h3>Notes</h3><hr /><h2>Setup</h2><p>b</p>''"
    by code_simp
  have old: "bare_tag (CHR ''2'') ''Setup'' = ''<h2>Setup</h2>''"
    by code_simp
  have a: "make_anchor ''Setup'' = ''setup''"
    by code_simp
  have new: "id_tag (CHR ''2'') ''setup'' ''Setup'' = ''<h2 id=\"setup\">Setup</h2>''"
    by code_simp
  have t: "toc_of [] = []" "toc_of ?hs2 = [\<lparr>title = ''Notes'', anchor = ''notes''\<rparr>]"
    by code_simp+
  have rw: "rewritten_doc (\<lambda>h. h = (CHR ''2'', ''Setup'')) ''<p>intro</p>'' [] = ''<p>intro</p>''"
    "rewritten_doc (\<lambda>h. h = (CHR ''2'', ''Setup'')) [] ?hs2 = ''<h3>Notes</h3><hr />''"
    "rewritten_doc (\<lambda>h. h = (CHR ''2'', ''Setup'')) [] [] = []"
    by (simp_all add: rewritten_doc_def bare_tag_def)
  have an: "annotated_doc ''<p>intro</p>'' [] = ''<p>intro</p>''"
    "annotated_doc [] ?hs2 = ''<h3 id=\"notes\">Notes</h3><hr />''"
    "annotated_doc [] [] = []"
    by code_simp+
  from duplicate_headings_same_anchor [OF wf] wf show ?thesis
    unfolding r old a new t rw an by simp
qed





section \<open>Properties of the Orchestrator\<close>

text \<open>
  C1. With the configuration \<open>{"template": "custom.html"}\<close> and no \<open>--template\<close> option
  the template path that \<^verbatim>\<open>main\<close> resolves is the built-in default, not \<open>custom.html\<close>:
  \<^verbatim>\<open>parse_args\<close> has already put the default into \<^verbatim>\<open>args.template\<close>, which is truthy, so
  the configuration is never consulted. In a file system that holds \<open>custom.html\<close> but
  not the default template, the run ends in the error of building a template from
  \<^verbatim>\<open>None\<close> and writes nothing.
\<close>

theorem template_config_ignored:
  "template_file_of
     (parse_args \<lparr>arg_input = ''in.md'', arg_output = ''out.html'', opt_css = None,
                  opt_template = None, opt_config = None\<rparr>)
     (PyDict [(''template'', PyStr ''custom.html'')])
     = Inr (PyStr ''templates/default_template.html'')
   \<and> main demo_libs
       (disk [''config.json'' \<mapsto> ''{\"template\": \"custom.html\"}'',
              ''in.md'' \<mapsto> ''body'',
              ''custom.html'' \<mapsto> ''<html>''])
       \<lparr>arg_input = ''in.md'', arg_output = ''out.html'', opt_css = None,
        opt_template = None, opt_config = None\<rparr>
     = \<lparr>raised = Some TypeError, writes = []\<rparr>"
proof -
  have g: "generate_toc ''body'' = ([], ''body'')"
    by code_simp
  have l: "split_lines ''body'' = [''body'']"
    by code_simp
  have m: "match_metadata ''body'' = None"
    by code_simp
  have e: "extract_metadata ''body'' = Map.empty"
    unfolding extract_metadata_def l by (simp add: m)
  show ?thesis
    by (simp add: template_file_of_def parse_args_def default_template_def main_def
        demo_libs_def disk_def load_config_def css_file_of_def read_file_def
        convert_markdown_to_html_def apply_template_def g e)
qed

lemma main_produce:
  "main libs fs argv =
     (case produce libs fs argv of
        Inl e \<Rightarrow> raising e
      | Inr None \<Rightarrow> returning
      | Inr (Some final_html) \<Rightarrow> write_file fs (arg_output argv) final_html)"
  by (simp add: main_def produce_def Let_def parse_args_def
      split: sum.splits option.splits prod.splits)

lemma read_file_agree:
  "read_text fs1 r = read_text fs2 r \<Longrightarrow> file_ref_of v = Some r
   \<Longrightarrow> read_file fs1 v = read_file fs2 v"
  by (simp add: read_file_def)

lemma read_file_agree_refs:
  assumes "\<forall>r \<in> set (refs_of v). read_text fs1 r = read_text fs2 r"
  shows "read_file fs1 v = read_file fs2 v"
proof (cases "file_ref_of v")
  case None
  then show ?thesis
    by (simp add: read_file_def)
next
  case (Some r)
  with assms have "read_text fs1 r = read_text fs2 r"
    by (simp add: refs_of_def)
  with Some show ?thesis
    by (simp add: read_file_def)
qed

lemma produce_agree:
  assumes e: "path_exists fs1 (args_config (parse_args argv))
            = path_exists fs2 (args_config (parse_args argv))"
    and r: "\<forall>r \<in> set (refs_read libs fs1 argv). read_text fs1 r = read_text fs2 r"
  shows "produce libs fs1 argv = produce libs fs2 argv"
proof -
  let ?a = "parse_args argv"
  have c: "read_text fs1 (Path (args_config ?a)) = read_text fs2 (Path (args_config ?a))"
    and i: "read_text fs1 (Path (args_input ?a)) = read_text fs2 (Path (args_input ?a))"
    using r by (simp_all add: refs_read_def Let_def)
  have lc: "load_config libs fs1 (args_config ?a) = load_config libs fs2 (args_config ?a)"
    using c e by (simp add: load_config_def)
  have ri: "read_file fs1 (PyStr (args_input ?a)) = read_file fs2 (PyStr (args_input ?a))"
    using i by (simp add: read_file_def)
  show ?thesis
  proof (cases "load_config libs fs1 (args_config ?a)")
    case (Inl err)
    moreover from Inl lc have "load_config libs fs2 (args_config ?a) = Inl err"
      by simp
    ultimately show ?thesis
      by (simp add: produce_def Let_def)
  next
    case (Inr config)
    from Inr lc have lc2: "load_config libs fs2 (args_config ?a) = Inr config"
      by simp
    show ?thesis
    proof (cases "css_file_of ?a config")
      case (Inl err)
      with Inr lc2 show ?thesis
        by (simp add: produce_def Let_def)
    next
      case css: (Inr css_file)
      show ?thesis
      proof (cases "template_file_of ?a config")
        case (Inl err)
        with Inr lc2 css show ?thesis
          by (simp add: produce_def Let_def)
      next
        case tf: (Inr template_file)
        have "\<forall>r \<in> set (refs_of template_file). read_text fs1 r = read_text fs2 r"
          using r Inr css tf by (simp add: refs_read_def Let_def)
        then have rt: "read_file fs1 template_file = read_file fs2 template_file"
          by (rule read_file_agree_refs)
        have at: "apply_template libs fs1 h m tc template_file cc
                = apply_template libs fs2 h m tc template_file cc" for h m tc cc
          using rt by (simp add: apply_template_def)
        have rc: "read_file fs1 css_file = read_file fs2 css_file" if "truthy css_file"
        proof -
          from that have "\<forall>r \<in> set (refs_of css_file). read_text fs1 r = read_text fs2 r"
            using r Inr css tf by (simp add: refs_read_def Let_def)
          then show ?thesis
            by (rule read_file_agree_refs)
        qed
        show ?thesis
        proof (cases "truthy css_file")
          case True
          with Inr lc2 css tf rc show ?thesis
            by (simp add: produce_def Let_def ri at split: sum.splits option.splits)
        next
          case False
          with Inr lc2 css tf show ?thesis
            by (simp add: produce_def Let_def ri at split: sum.splits option.splits)
        qed
      qed
    qed
  qed
qed

lemma produce_libs:
  assumes "json_load libs1 = json_load libs2" "markdown libs1 = markdown libs2"
    "Template libs1 = Template libs2" "render libs1 = render libs2"
  shows "produce libs1 fs argv = produce libs2 fs argv"
proof -
  have a: "load_config libs1 = load_config libs2"
    using assms by (intro ext) (simp add: load_config_def split: sum.splits)
  have b: "convert_markdown_to_html libs1 = convert_markdown_to_html libs2"
    using assms by (intro ext) (simp add: convert_markdown_to_html_def)
  have c: "apply_template libs1 = apply_template libs2"
    using assms by (intro ext) (simp add: apply_template_def split: sum.splits)
  show ?thesis
    unfolding produce_def a b c by (rule refl)
qed

text \<open>
  C8. When the metadata holds one of the keys \<open>html_content\<close>, \<open>css_content\<close> or \<open>toc\<close>,
  the Template Renderer raises: the error of reading or building the template if there
  is one, and otherwise the \<open>TypeError\<close> of the repeated keyword argument. It never
  returns a page.
\<close>

theorem apply_template_reserved_key:
  assumes "metadata ''html_content'' \<noteq> None \<or> metadata ''css_content'' \<noteq> None
           \<or> metadata ''toc'' \<noteq> None"
  shows "(\<exists>e. apply_template libs fs html_content metadata toc template_path css_content
               = Inl e)
       \<and> apply_template libs fs html_content metadata toc template_path css_content
         = (case read_file fs template_path of
              Inl e \<Rightarrow> Inl e
            | Inr template_str \<Rightarrow>
                (case Template libs template_str of
                   Inl e \<Rightarrow> Inl e
                 | Inr template \<Rightarrow> Inl TypeError))"
  using assms by (auto simp: apply_template_def split: sum.splits)

theorem apply_template_reserved_key_witness:
  "extract_metadata ''toc: yes'' ''toc'' = Some ''yes''
   \<and> apply_template demo_libs (disk [''t.html'' \<mapsto> ''<html>'']) ''<p>body</p>''
        (extract_metadata ''toc: yes'') [] (PyStr ''t.html'') None = Inl TypeError"
proof -
  have l: "split_lines ''toc: yes'' = [''toc: yes'']"
    by code_simp
  have m: "match_metadata ''toc: yes'' = Some (''toc'', ''yes'')"
    by code_simp
  have s: "strip ''toc'' = ''toc''" "strip ''yes'' = ''yes''"
    by code_simp+
  have e: "extract_metadata ''toc: yes'' ''toc'' = Some ''yes''"
    unfolding extract_metadata_def l by (simp add: m s)
  then have "extract_metadata ''toc: yes'' ''html_content'' \<noteq> None
           \<or> extract_metadata ''toc: yes'' ''css_content'' \<noteq> None
           \<or> extract_metadata ''toc: yes'' ''toc'' \<noteq> None"
    by simp
  from apply_template_reserved_key [OF this, of demo_libs "disk [''t.html'' \<mapsto> ''<html>'']"
      "''<p>body</p>''" "[]" "PyStr ''t.html''" None] e
  show ?thesis
    by (simp add: read_file_def demo_libs_def disk_def)
qed

text \<open>
  C7, as stated, fails in three ways. With a configuration file that does not parse, a
  run whose input file is missing ends in the parser's exception. With a configuration
  file that holds \<open>[]\<close>, the run ends in the \<^verbatim>\<open>AttributeError\<close> of \<^verbatim>\<open>config.get\<close> on line 76.
  And an input path below a regular file does not exist, but opening it raises
  \<^verbatim>\<open>NotADirectoryError\<close>, which \<^verbatim>\<open>read_file\<close> does not catch.
\<close>

theorem missing_input_raises:
  "read_text (disk [''config.json'' \<mapsto> ''{'']) (Path ''in.md'') = Inl FileNotFoundError
   \<and> main demo_libs (disk [''config.json'' \<mapsto> ''{''])
        \<lparr>arg_input = ''in.md'', arg_output = ''out.html'', opt_css = None,
         opt_template = None, opt_config = None\<rparr>
     = \<lparr>raised = Some (OtherError ''JSONDecodeError''), writes = []\<rparr>
   \<and> main demo_libs (disk [''config.json'' \<mapsto> ''[]''])
        \<lparr>arg_input = ''in.md'', arg_output = ''out.html'', opt_css = None,
         opt_template = None, opt_config = None\<rparr>
     = \<lparr>raised = Some AttributeError, writes = []\<rparr>
   \<and> \<not> path_exists
         ((disk [''notes.txt'' \<mapsto> ''n''])
           \<lparr>read_text := (read_text (disk [''notes.txt'' \<mapsto> ''n'']))
              (Path ''notes.txt/in.md'' := Inl (OtherError ''NotADirectoryError''))\<rparr>)
         ''notes.txt/in.md''
   \<and> main demo_libs
        ((disk [''notes.txt'' \<mapsto> ''n''])
           \<lparr>read_text := (read_text (disk [''notes.txt'' \<mapsto> ''n'']))
              (Path ''notes.txt/in.md'' := Inl (OtherError ''NotADirectoryError''))\<rparr>)
        \<lparr>arg_input = ''notes.txt/in.md'', arg_output = ''out.html'', opt_css = None,
         opt_template = None, opt_config = None\<rparr>
     = \<lparr>raised = Some (OtherError ''NotADirectoryError''), writes = []\<rparr>"
  by (simp add: main_def demo_libs_def disk_def parse_args_def load_config_def
      css_file_of_def template_file_of_def read_file_def)

text \<open>
  C7, amended. When opening the input file raises \<^verbatim>\<open>FileNotFoundError\<close>, the run calls
  \<^verbatim>\<open>write_file\<close> not once, and it returns without an exception unless loading the
  configuration or resolving the CSS and template options (lines 69 to 77) raised.
  When the configuration is loaded, the options are resolved, a CSS file is requested
  and opening it raises \<^verbatim>\<open>FileNotFoundError\<close>, the run calls \<^verbatim>\<open>write_file\<close> not once, and
  it returns without an exception unless reading the input or the Markdown Renderer
  raised. And a run that calls \<^verbatim>\<open>write_file\<close> at all does so once, as its last step, with
  the output path and the page the Template Renderer returned, after the configuration
  was loaded, the options were resolved, the input was read, the Markdown Renderer
  returned, and the CSS file, if one is requested, was read.
\<close>

theorem main_missing_file:
  "(read_file fs (PyStr (arg_input argv)) = Inr None \<longrightarrow>
      main libs fs argv
        = (case load_config libs fs (args_config (parse_args argv)) of
             Inl e \<Rightarrow> raising e
           | Inr config \<Rightarrow>
               (case css_file_of (parse_args argv) config of
                  Inl e \<Rightarrow> raising e
                | Inr css_file \<Rightarrow>
                    (case template_file_of (parse_args argv) config of
                       Inl e \<Rightarrow> raising e
                     | Inr template_file \<Rightarrow> returning))))
   \<and> (load_config libs fs (args_config (parse_args argv)) = Inr config
      \<and> css_file_of (parse_args argv) config = Inr css_file
      \<and> template_file_of (parse_args argv) config = Inr template_file
      \<and> truthy css_file \<and> read_file fs css_file = Inr None \<longrightarrow>
      main libs fs argv
        = (case read_file fs (PyStr (arg_input argv)) of
             Inl e \<Rightarrow> raising e
           | Inr None \<Rightarrow> returning
           | Inr (Some markdown_content) \<Rightarrow>
               (case markdown libs markdown_content [''toc''] of
                  Inl e \<Rightarrow> raising e
                | Inr rendered \<Rightarrow> returning)))
   \<and> (writes (main libs fs argv) \<noteq> [] \<longrightarrow>
        (\<exists>config css_file template_file markdown_content rendered css_content final_html.
           load_config libs fs (args_config (parse_args argv)) = Inr config
         \<and> css_file_of (parse_args argv) config = Inr css_file
         \<and> template_file_of (parse_args argv) config = Inr template_file
         \<and> read_file fs (PyStr (arg_input argv)) = Inr (Some markdown_content)
         \<and> markdown libs markdown_content [''toc''] = Inr rendered
         \<and> (if truthy css_file
             then read_file fs css_file = Inr css_content \<and> css_content \<noteq> None
             else css_content = None)
         \<and> apply_template libs fs (snd (generate_toc rendered))
              (extract_metadata markdown_content) (fst (generate_toc rendered))
              template_file css_content = Inr final_html
         \<and> main libs fs argv
           = \<lparr>raised = write_text fs (arg_output argv) final_html,
              writes = [(arg_output argv, final_html)]\<rparr>))"
proof (intro conjI impI)
  assume "read_file fs (PyStr (arg_input argv)) = Inr None"
  then show "main libs fs argv
        = (case load_config libs fs (args_config (parse_args argv)) of
             Inl e \<Rightarrow> raising e
           | Inr config \<Rightarrow>
               (case css_file_of (parse_args argv) config of
                  Inl e \<Rightarrow> raising e
                | Inr css_file \<Rightarrow>
                    (case template_file_of (parse_args argv) config of
                       Inl e \<Rightarrow> raising e
                     | Inr template_file \<Rightarrow> returning)))"
    by (simp add: main_def Let_def parse_args_def split: sum.splits)
next
  assume "load_config libs fs (args_config (parse_args argv)) = Inr config
      \<and> css_file_of (parse_args argv) config = Inr css_file
      \<and> template_file_of (parse_args argv) config = Inr template_file
      \<and> truthy css_file \<and> read_file fs css_file = Inr None"
  then show "main libs fs argv
        = (case read_file fs (PyStr (arg_input argv)) of
             Inl e \<Rightarrow> raising e
           | Inr None \<Rightarrow> returning
           | Inr (Some markdown_content) \<Rightarrow>
               (case markdown libs markdown_content [''toc''] of
                  Inl e \<Rightarrow> raising e
                | Inr rendered \<Rightarrow> returning))"
    by (simp add: main_def Let_def parse_args_def convert_markdown_to_html_def
        split: sum.splits option.splits prod.splits)
next
  assume w: "writes (main libs fs argv) \<noteq> []"
  let ?a = "parse_args argv"
  from w obtain config where c: "load_config libs fs (args_config ?a) = Inr config"
    by (cases "load_config libs fs (args_config ?a)") (simp_all add: main_def Let_def)
  from w c obtain css_file where cf: "css_file_of ?a config = Inr css_file"
    by (cases "css_file_of ?a config") (simp_all add: main_def Let_def)
  from w c cf obtain template_file where tf: "template_file_of ?a config = Inr template_file"
    by (cases "template_file_of ?a config") (simp_all add: main_def Let_def)
  from w c cf tf obtain markdown_content
    where md: "read_file fs (PyStr (arg_input argv)) = Inr (Some markdown_content)"
    by (cases "read_file fs (PyStr (arg_input argv))")
       (auto simp: main_def Let_def parse_args_def split: option.splits)
  from w c cf tf md obtain rendered
    where rd: "markdown libs markdown_content [''toc''] = Inr rendered"
    by (cases "markdown libs markdown_content [''toc'']")
       (auto simp: main_def Let_def parse_args_def convert_markdown_to_html_def)
  have p: "produce libs fs argv
      = (if truthy css_file
         then (case read_file fs css_file of
                 Inl e \<Rightarrow> Inl e
               | Inr None \<Rightarrow> Inr None
               | Inr (Some css_content) \<Rightarrow>
                   map_sum id Some
                     (apply_template libs fs (snd (generate_toc rendered))
                        (extract_metadata markdown_content)
                        (fst (generate_toc rendered)) template_file (Some css_content)))
         else map_sum id Some
                (apply_template libs fs (snd (generate_toc rendered))
                   (extract_metadata markdown_content)
                   (fst (generate_toc rendered)) template_file None))"
    using c cf tf md rd
    by (simp add: produce_def Let_def parse_args_def convert_markdown_to_html_def)
  from w obtain final_html where f: "produce libs fs argv = Inr (Some final_html)"
    by (auto simp: main_produce split: sum.splits option.splits)
  then have m: "main libs fs argv
           = \<lparr>raised = write_text fs (arg_output argv) final_html,
              writes = [(arg_output argv, final_html)]\<rparr>"
    by (simp add: main_produce write_file_def)
  have "\<exists>css_content.
          (if truthy css_file
           then read_file fs css_file = Inr css_content \<and> css_content \<noteq> None
           else css_content = None)
        \<and> apply_template libs fs (snd (generate_toc rendered))
              (extract_metadata markdown_content) (fst (generate_toc rendered))
              template_file css_content = Inr final_html"
  proof (cases "truthy css_file")
    case True
    with p f obtain css where "read_file fs css_file = Inr (Some css)"
      and "apply_template libs fs (snd (generate_toc rendered))
              (extract_metadata markdown_content) (fst (generate_toc rendered))
              template_file (Some css) = Inr final_html"
      by (auto split: sum.splits option.splits simp: map_sum_def)
    with True show ?thesis
      by (intro exI [of _ "Some css"]) simp
  next
    case False
    with p f have "apply_template libs fs (snd (generate_toc rendered))
              (extract_metadata markdown_content) (fst (generate_toc rendered))
              template_file None = Inr final_html"
      by (auto split: sum.splits simp: map_sum_def)
    with False show ?thesis
      by (intro exI [of _ None]) simp
  qed
  with c cf tf md rd m
  show "\<exists>config css_file template_file markdown_content rendered css_content final_html.
           load_config libs fs (args_config (parse_args argv)) = Inr config
         \<and> css_file_of (parse_args argv) config = Inr css_file
         \<and> template_file_of (parse_args argv) config = Inr template_file
         \<and> read_file fs (PyStr (arg_input argv)) = Inr (Some markdown_content)
         \<and> markdown libs markdown_content [''toc''] = Inr rendered
         \<and> (if truthy css_file
             then read_file fs css_file = Inr css_content \<and> css_content \<noteq> None
             else css_content = None)
         \<and> apply_template libs fs (snd (generate_toc rendered))
              (extract_metadata markdown_content) (fst (generate_toc rendered))
              template_file css_content = Inr final_html
         \<and> main libs fs argv
           = \<lparr>raised = write_text fs (arg_output argv) final_html,
              writes = [(arg_output argv, final_html)]\<rparr>"
    by blast
qed

theorem main_missing_file_witness:
  "read_file (disk Map.empty) (PyStr ''in.md'') = Inr None
   \<and> main demo_libs (disk Map.empty)
        \<lparr>arg_input = ''in.md'', arg_output = ''out.html'', opt_css = None,
         opt_template = None, opt_config = None\<rparr>
     = \<lparr>raised = None, writes = []\<rparr>
   \<and> read_file (disk [''in.md'' \<mapsto> ''# T'']) (PyStr ''style.css'') = Inr None
   \<and> main demo_libs (disk [''in.md'' \<mapsto> ''# T''])
        \<lparr>arg_input = ''in.md'', arg_output = ''out.html'', opt_css = Some ''style.css'',
         opt_template = None, opt_config = None\<rparr>
     = \<lparr>raised = None, writes = []\<rparr>
   \<and> main demo_libs (disk [''in.md'' \<mapsto> ''# T'', ''t.html'' \<mapsto> ''<html>''])
        \<lparr>arg_input = ''in.md'', arg_output = ''out.html'', opt_css = None,
         opt_template = Some ''t.html'', opt_config = None\<rparr>
     = \<lparr>raised = None, writes = [(''out.html'', ''<html># T'')]\<rparr>
   \<and> (\<exists>markdown_content.
         read_file (disk [''in.md'' \<mapsto> ''# T'', ''t.html'' \<mapsto> ''<html>'']) (PyStr ''in.md'')
           = Inr (Some markdown_content))"
proof -
  let ?argv1 = "\<lparr>arg_input = ''in.md'', arg_output = ''out.html'', opt_css = None,
         opt_template = None, opt_config = None\<rparr>"
  let ?argv2 = "\<lparr>arg_input = ''in.md'', arg_output = ''out.html'',
         opt_css = Some ''style.css'', opt_template = None, opt_config = None\<rparr>"
  let ?argv3 = "\<lparr>arg_input = ''in.md'', arg_output = ''out.html'', opt_css = None,
         opt_template = Some ''t.html'', opt_config = None\<rparr>"
  let ?fs2 = "disk [''in.md'' \<mapsto> ''# T'']"
  let ?fs3 = "disk [''in.md'' \<mapsto> ''# T'', ''t.html'' \<mapsto> ''<html>'']"
  have r1: "read_file (disk Map.empty) (PyStr ''in.md'') = Inr None"
    by (simp add: read_file_def disk_def)
  have a: "main demo_libs (disk Map.empty) ?argv1 = \<lparr>raised = None, writes = []\<rparr>"
    using main_missing_file [of "disk Map.empty" ?argv1 demo_libs, THEN conjunct1] r1
    by (simp add: load_config_def parse_args_def disk_def css_file_of_def
        template_file_of_def default_template_def)
  have r2: "read_file ?fs2 (PyStr ''style.css'') = Inr None"
    by (simp add: read_file_def disk_def)
  have l: "load_config demo_libs ?fs2 (args_config (parse_args ?argv2)) = Inr (PyDict [])"
    by (simp add: load_config_def parse_args_def disk_def)
  have c: "css_file_of (parse_args ?argv2) (PyDict []) = Inr (PyStr ''style.css'')"
    by (simp add: css_file_of_def parse_args_def)
  have t: "template_file_of (parse_args ?argv2) (PyDict [])
      = Inr (PyStr ''templates/default_template.html'')"
    by (simp add: template_file_of_def parse_args_def default_template_def)
  have h: "load_config demo_libs ?fs2 (args_config (parse_args ?argv2)) = Inr (PyDict [])
      \<and> css_file_of (parse_args ?argv2) (PyDict []) = Inr (PyStr ''style.css'')
      \<and> template_file_of (parse_args ?argv2) (PyDict [])
          = Inr (PyStr ''templates/default_template.html'')
      \<and> truthy (PyStr ''style.css'') \<and> read_file ?fs2 (PyStr ''style.css'') = Inr None"
    using l c t r2 by (intro conjI) simp_all
  have ri: "read_file ?fs2 (PyStr (arg_input ?argv2)) = Inr (Some ''# T'')"
    by (simp add: read_file_def disk_def)
  have mk: "markdown demo_libs ''# T'' [''toc''] = Inr ''# T''"
    by (simp add: demo_libs_def)
  from main_missing_file [of ?fs2 ?argv2 demo_libs "PyDict []" "PyStr ''style.css''"
        "PyStr ''templates/default_template.html''", THEN conjunct2, THEN conjunct1,
        THEN mp, OF h]
  have b: "main demo_libs ?fs2 ?argv2 = \<lparr>raised = None, writes = []\<rparr>"
    unfolding ri by (simp add: mk)
  have g: "generate_toc ''# T'' = ([], ''# T'')"
    by code_simp
  have sl: "split_lines ''# T'' = [''# T'']"
    by code_simp
  have m: "match_metadata ''# T'' = None"
    by code_simp
  have e: "extract_metadata ''# T'' = Map.empty"
    unfolding extract_metadata_def sl by (simp add: m)
  have w: "main demo_libs ?fs3 ?argv3
      = \<lparr>raised = None, writes = [(''out.html'', ''<html># T'')]\<rparr>"
    by (simp add: main_def parse_args_def load_config_def template_file_of_def
        css_file_of_def read_file_def demo_libs_def disk_def convert_markdown_to_html_def
        apply_template_def write_file_def g e)
  then have "writes (main demo_libs ?fs3 ?argv3) \<noteq> []"
    by simp
  with main_missing_file [of ?fs3 ?argv3 demo_libs, THEN conjunct2, THEN conjunct2]
  have "\<exists>markdown_content. read_file ?fs3 (PyStr (arg_input ?argv3)) = Inr (Some markdown_content)"
    by blast
  then have x: "\<exists>markdown_content. read_file ?fs3 (PyStr ''in.md'') = Inr (Some markdown_content)"
    by simp
  from r1 a r2 b w x show ?thesis
    by (intro conjI)
qed

text \<open>
  C10, as stated, fails: the Template Renderer need not return the same page twice. With
  the template \<^verbatim>\<open>{{ "ab"|random }}\<close> two runs on the same files and the same command line
  write \<open>a\<close> and \<open>b\<close>, as the random generator of each run decides.
\<close>

theorem random_template_differs:
  "main (random_libs CHR ''a'')
     (disk [''in.md'' \<mapsto> ''# T'', ''t.html'' \<mapsto> ''{{ \"ab\"|random }}''])
     \<lparr>arg_input = ''in.md'', arg_output = ''out.html'', opt_css = None,
      opt_template = Some ''t.html'', opt_config = None\<rparr>
     = \<lparr>raised = None, writes = [(''out.html'', ''a'')]\<rparr>
   \<and> main (random_libs CHR ''b'')
     (disk [''in.md'' \<mapsto> ''# T'', ''t.html'' \<mapsto> ''{{ \"ab\"|random }}''])
     \<lparr>arg_input = ''in.md'', arg_output = ''out.html'', opt_css = None,
      opt_template = Some ''t.html'', opt_config = None\<rparr>
     = \<lparr>raised = None, writes = [(''out.html'', ''b'')]\<rparr>"
proof -
  have g: "generate_toc ''# T'' = ([], ''# T'')"
    by code_simp
  have sl: "split_lines ''# T'' = [''# T'']"
    by code_simp
  have m: "match_metadata ''# T'' = None"
    by code_simp
  have e: "extract_metadata ''# T'' = Map.empty"
    unfolding extract_metadata_def sl by (simp add: m)
  show ?thesis
    by (simp add: main_def parse_args_def load_config_def template_file_of_def
        css_file_of_def read_file_def random_libs_def demo_libs_def disk_def
        convert_markdown_to_html_def apply_template_def write_file_def g e)
qed

text \<open>
  C10, amended. Take two runs with the same command line in which the three packages
  behave alike (\<^verbatim>\<open>json.load\<close>, \<^verbatim>\<open>markdown.markdown\<close>, the template constructor and
  \<^verbatim>\<open>render\<close> return the same results for the same arguments), on file systems that
  agree on whether the configuration path exists and on what every file the run reads
  holds. Then both make the same calls of \<^verbatim>\<open>write_file\<close>, with the same path and the same
  page; and if writing the output path fails alike in both, both end alike. What
  else the file systems hold, the previous content of the output file included, has no
  influence.
\<close>

theorem main_deterministic:
  assumes "json_load libs1 = json_load libs2" and "markdown libs1 = markdown libs2"
    and "Template libs1 = Template libs2" and "render libs1 = render libs2"
    and "path_exists fs1 (args_config (parse_args argv))
       = path_exists fs2 (args_config (parse_args argv))"
    and "\<forall>r \<in> set (refs_read libs1 fs1 argv). read_text fs1 r = read_text fs2 r"
  shows "writes (main libs1 fs1 argv) = writes (main libs2 fs2 argv)
       \<and> (write_text fs1 (arg_output argv) = write_text fs2 (arg_output argv)
          \<longrightarrow> main libs1 fs1 argv = main libs2 fs2 argv)"
proof -
  have "produce libs1 fs1 argv = produce libs1 fs2 argv"
    using assms(5,6) by (rule produce_agree)
  also have "\<dots> = produce libs2 fs2 argv"
    using assms(1-4) by (rule produce_libs)
  finally have eq: "produce libs1 fs1 argv = produce libs2 fs2 argv" .
  show ?thesis
    by (cases "produce libs2 fs2 argv")
       (auto simp: main_produce eq write_file_def split: option.splits)
qed

theorem main_deterministic_witness:
  "refs_read demo_libs
       (disk [''in.md'' \<mapsto> ''# T'', ''t.html'' \<mapsto> ''<html>'', ''out.html'' \<mapsto> ''old''])
       \<lparr>arg_input = ''in.md'', arg_output = ''out.html'', opt_css = None,
        opt_template = Some ''t.html'', opt_config = None\<rparr>
     = [Path ''config.json'', Path ''in.md'', Path ''t.html'']
   \<and> main demo_libs
       (disk [''in.md'' \<mapsto> ''# T'', ''t.html'' \<mapsto> ''<html>'', ''out.html'' \<mapsto> ''old''])
       \<lparr>arg_input = ''in.md'', arg_output = ''out.html'', opt_css = None,
        opt_template = Some ''t.html'', opt_config = None\<rparr>
     = \<lparr>raised = None, writes = [(''out.html'', ''<html># T'')]\<rparr>
   \<and> main demo_libs
       (disk [''in.md'' \<mapsto> ''# T'', ''t.html'' \<mapsto> ''<html>'', ''notes.txt'' \<mapsto> ''n''])
       \<lparr>arg_input = ''in.md'', arg_output = ''out.html'', opt_css = None,
        opt_template = Some ''t.html'', opt_config = None\<rparr>
     = \<lparr>raised = None, writes = [(''out.html'', ''<html># T'')]\<rparr>"
proof -
  let ?fs1 = "disk [''in.md'' \<mapsto> ''# T'', ''t.html'' \<mapsto> ''<html>'', ''out.html'' \<mapsto> ''old'']"
  let ?fs2 = "disk [''in.md'' \<mapsto> ''# T'', ''t.html'' \<mapsto> ''<html>'', ''notes.txt'' \<mapsto> ''n'']"
  let ?argv = "\<lparr>arg_input = ''in.md'', arg_output = ''out.html'', opt_css = None,
        opt_template = Some ''t.html'', opt_config = None\<rparr>"
  have pr: "refs_read demo_libs ?fs1 ?argv = [Path ''config.json'', Path ''in.md'', Path ''t.html'']"
    by (simp add: refs_read_def refs_of_def parse_args_def load_config_def
        template_file_of_def css_file_of_def disk_def)
  have h1: "\<forall>r \<in> set (refs_read demo_libs ?fs1 ?argv). read_text ?fs1 r = read_text ?fs2 r"
    unfolding pr by (simp add: disk_def)
  have h2: "path_exists ?fs1 (args_config (parse_args ?argv))
          = path_exists ?fs2 (args_config (parse_args ?argv))"
    by (simp add: disk_def parse_args_def)
  have h3: "write_text ?fs1 (arg_output ?argv) = write_text ?fs2 (arg_output ?argv)"
    by (simp add: disk_def)
  have g: "generate_toc ''# T'' = ([], ''# T'')"
    by code_simp
  have sl: "split_lines ''# T'' = [''# T'']"
    by code_simp
  have m: "match_metadata ''# T'' = None"
    by code_simp
  have e: "extract_metadata ''# T'' = Map.empty"
    unfolding extract_metadata_def sl by (simp add: m)
  have r1: "main demo_libs ?fs1 ?argv
      = \<lparr>raised = None, writes = [(''out.html'', ''<html># T'')]\<rparr>"
    by (simp add: main_def parse_args_def load_config_def template_file_of_def
        css_file_of_def read_file_def demo_libs_def disk_def convert_markdown_to_html_def
        apply_template_def write_file_def g e)
  from main_deterministic [OF refl refl refl refl h2 h1, THEN conjunct2] h3
  have "main demo_libs ?fs1 ?argv = main demo_libs ?fs2 ?argv"
    by blast
  with r1 have r2: "main demo_libs ?fs2 ?argv
      = \<lparr>raised = None, writes = [(''out.html'', ''<html># T'')]\<rparr>"
    by simp
  from pr r1 r2 show ?thesis
    by (intro conjI)
qed

end
